theory Spec2Isabelle
  imports Main
begin

section \<open>Values of the plugin (src/index.ts)\<close>

text \<open>
  A JavaScript exception is a value: \<open>Error msg\<close> is \<^verbatim>\<open>new Error(msg)\<close>, and
  \<open>TypeError msg\<close> is what the runtime raises when a property of \<^verbatim>\<open>undefined\<close> is read.
  Every other error (the ones the host or the bundle hands over) is an \<open>Error\<close> too.
\<close>

datatype error = Error string | TypeError string

type_synonym mod_id = nat
type_synonym opt_id = nat
type_synonym inst_id = nat
type_synonym arr_id = nat
type_synonym source = string
type_synonym bytecode = string
type_synonym scope = string
type_synonym ast = string
type_synonym builtins = "(string \<times> string) list"

text \<open>
  A delegate constructor: the imported \<^verbatim>\<open>MUCompilerDelegate\<close>, or a class the user supplies.
\<close>

datatype delegate_ctor = MUCompilerDelegate | UserDelegate nat

text \<open>
  \<^verbatim>\<open>PluginOptions\<close> (lines 22-30). An optional property is an \<open>option\<close>: \<open>None\<close> is
  \<^verbatim>\<open>undefined\<close>. \<open>mode\<close> is any string: the type \<^verbatim>\<open>Mode\<close> is erased at run time and
  line 182 prints the mode it did not recognise. The \<^verbatim>\<open>helpers\<close> property is never read.
\<close>

record plugin_options =
  output_opt :: string
  context_opt :: "string option"
  mode :: "string option"
  CompilerDelegate :: "delegate_ctor option"
  builtins_opt :: "builtins option"
  mainPath :: "string option"

text \<open>
  Truthiness of an optional string, as \<^verbatim>\<open>&&\<close>, \<^verbatim>\<open>||\<close> and \<^verbatim>\<open>if\<close> read it: \<^verbatim>\<open>undefined\<close>
  and the empty string are falsy. A constructor, when given, is always truthy.
\<close>

definition truthy :: "string option \<Rightarrow> bool" where
  "truthy v = (case v of None \<Rightarrow> False | Some s \<Rightarrow> s \<noteq> [])"

definition js_or :: "string option \<Rightarrow> string option \<Rightarrow> string option" where
  "js_or a b = (if truthy a then a else b)"

text \<open>
  \<^verbatim>\<open>expect\<close> of @glimmer/util (a library, not of this repository): it throws the message
  when the value is \<^verbatim>\<open>null\<close> or \<^verbatim>\<open>undefined\<close> and returns the value otherwise.
\<close>

definition expect :: "'a option \<Rightarrow> string \<Rightarrow> error + 'a" where
  "expect v message = (case v of None \<Rightarrow> Inl (Error message) | Some x \<Rightarrow> Inr x)"

text \<open>A template literal prints \<^verbatim>\<open>undefined\<close> for a missing value.\<close>

definition interpolate :: "string option \<Rightarrow> string" where
  "interpolate v = (case v of None \<Rightarrow> ''undefined'' | Some s \<Rightarrow> s)"

subsection \<open>The compiler delegate and the bundle\<close>

text \<open>
  The argument object of \<^verbatim>\<open>new CompilerDelegate({...})\<close> (lines 192-200), with the
  constructor that was called.
\<close>

record delegate =
  d_ctor :: delegate_ctor
  projectPath :: string
  dataSegment :: string
  heapFile :: string
  d_builtins :: "builtins option"
  mainTemplateLocator :: "(string \<times> string) option"

text \<open>
  Modelled from the spec: the class \<^verbatim>\<open>Bundle\<close> of \<^verbatim>\<open>./bundle\<close> is not under src/. The spec's
  Bundle Facade "given a project root, a compiler delegate, and an optional entry-point path,
  accumulates registered templates/ASTs and produces, on demand, a (bytecode,
  dataSegmentSource) pair". A new bundle has accumulated nothing; \<open>add\<close> and \<open>addAST\<close>
  accumulate; what \<^verbatim>\<open>compile()\<close> produces is left open: every function below that calls it
  takes it as the parameter \<open>compile\<close>, \<open>Inl e\<close> when it throws \<open>e\<close>.
\<close>

record Bundle =
  b_inputPath :: string
  b_delegate :: delegate
  b_mainPath :: "string option"
  b_templates :: "(string \<times> string \<times> scope) list"
  b_asts :: "(string \<times> ast) list"

type_synonym compile_fn = "Bundle \<Rightarrow> error + (bytecode \<times> source)"

definition new_Bundle :: "string \<Rightarrow> delegate \<Rightarrow> string option \<Rightarrow> Bundle" where
  "new_Bundle inputPath d mp =
     \<lparr>b_inputPath = inputPath, b_delegate = d, b_mainPath = mp, b_templates = [], b_asts = []\<rparr>"

definition bundle_add :: "string \<Rightarrow> string \<Rightarrow> scope \<Rightarrow> Bundle \<Rightarrow> Bundle" where
  "bundle_add path template sc b = b\<lparr>b_templates := b_templates b @ [(path, template, sc)]\<rparr>"

definition bundle_addAST :: "string \<Rightarrow> ast \<Rightarrow> Bundle \<Rightarrow> Bundle" where
  "bundle_addAST path a b = b\<lparr>b_asts := b_asts b @ [(path, a)]\<rparr>"

subsection \<open>The plugin instance\<close>

text \<open>
  The fields of a \<^verbatim>\<open>GlimmerCompiler\<close> (lines 55-68). \<open>this_id\<close> is the identity of the
  object, which the loader options point to; \<open>this_loaderOptions\<close> is a reference to an
  array of the store below. \<open>this_bundle\<close> is \<^verbatim>\<open>undefined\<close> until the first build session.
  The field \<^verbatim>\<open>mode\<close> is declared and never assigned.
\<close>

record plugin =
  this_id :: inst_id
  options :: plugin_options
  outputFile :: string
  CompilerDelegate_field :: "delegate_ctor option"
  dataSegmentModules :: "mod_id list"
  this_bundle :: "Bundle option"
  this_loaderOptions :: arr_id

text \<open>
  \<^verbatim>\<open>getCompilerDelegateFor\<close> (lines 173-201). The \<^verbatim>\<open>switch\<close> compares with \<^verbatim>\<open>===\<close>. The
  result records which constructor is called and with which argument object; the
  constructor itself is code of another package and is taken to return.
\<close>

definition getCompilerDelegateFor :: "plugin \<Rightarrow> string \<Rightarrow> error + delegate" where
  "getCompilerDelegateFor p inputPath =
     (case (case CompilerDelegate (options p) of
              Some c \<Rightarrow> Inr c
            | None \<Rightarrow>
                (if mode (options p) = Some ''module-unification'' then Inr MUCompilerDelegate
                 else Inl (Error (''Unrecognized compiler mode '' @ interpolate (mode (options p)))))) of
        Inl e \<Rightarrow> Inl e
      | Inr c \<Rightarrow>
          Inr \<lparr>d_ctor = c, projectPath = inputPath,
               dataSegment = ''table.js'', heapFile = ''templates.gbx'',
               d_builtins = builtins_opt (options p),
               mainTemplateLocator =
                 (case mainPath (options p) of
                    None \<Rightarrow> None
                  | Some mp \<Rightarrow> if mp \<noteq> [] then Some (mp, ''default'') else None)\<rparr>)"

text \<open>\<^verbatim>\<open>getBundleFor\<close> (lines 163-171).\<close>

definition getBundleFor :: "plugin \<Rightarrow> string \<Rightarrow> error + Bundle" where
  "getBundleFor p inputPath =
     (case getCompilerDelegateFor p inputPath of
        Inl e \<Rightarrow> Inl e
      | Inr d \<Rightarrow> Inr (new_Bundle inputPath d (mainPath (options p))))"

subsection \<open>The loader options shared by the whole process\<close>

text \<open>
  The store of the loader options. \<open>loaderOptions\<close> is the variable of line 14: a
  reference to an array; \<open>arrays\<close> holds the arrays, \<open>compiler_of\<close> the \<^verbatim>\<open>compiler\<close>
  property of every options object (\<open>None\<close>: not set), and the three counters give the
  next fresh array, options object and plugin instance.
\<close>

record gstate =
  loaderOptions :: arr_id
  arrays :: "arr_id \<Rightarrow> opt_id list"
  compiler_of :: "opt_id \<Rightarrow> inst_id option"
  next_arr :: nat
  next_opt :: nat
  next_inst :: nat

definition initial_gstate :: gstate where
  "initial_gstate =
     \<lparr>loaderOptions = 0, arrays = (\<lambda>_. []), compiler_of = (\<lambda>_. None),
      next_arr = 1, next_opt = 0, next_inst = 0\<rparr>"

text \<open>
  \<^verbatim>\<open>loader\<close> (lines 243-253): a new options object \<^verbatim>\<open>{}\<close> is pushed on the shared array.
  The descriptor returned is the loader's path and the options object.
\<close>

definition loader :: "string \<Rightarrow> gstate \<Rightarrow> (string \<times> opt_id) \<times> gstate" where
  "loader loaderPath g =
     (let opts = next_opt g in
      ((loaderPath, opts),
       g\<lparr>compiler_of := (compiler_of g)(opts := None),
         arrays := (arrays g)(loaderOptions g := arrays g (loaderOptions g) @ [opts]),
         next_opt := Suc opts\<rparr>))"

text \<open>
  \<^verbatim>\<open>instanceLoader\<close> (lines 255-265): the options object \<^verbatim>\<open>{ compiler }\<close> is pushed on the
  array of the instance.
\<close>

definition instanceLoader :: "string \<Rightarrow> plugin \<Rightarrow> gstate \<Rightarrow> (string \<times> opt_id) \<times> gstate" where
  "instanceLoader loaderPath p g =
     (let opts = next_opt g in
      ((loaderPath, opts),
       g\<lparr>compiler_of := (compiler_of g)(opts := Some (this_id p)),
         arrays := (arrays g)(this_loaderOptions p := arrays g (this_loaderOptions p) @ [opts]),
         next_opt := Suc opts\<rparr>))"

text \<open>The loop of lines 80-82: \<^verbatim>\<open>opts.compiler = this\<close> for every element.\<close>

fun set_compiler :: "opt_id list \<Rightarrow> inst_id \<Rightarrow> (opt_id \<Rightarrow> inst_id option) \<Rightarrow> (opt_id \<Rightarrow> inst_id option)" where
  "set_compiler [] this h = h"
| "set_compiler (opts # rest) this h = set_compiler rest this (h(opts := Some this))"

text \<open>
  The constructor (lines 70-87). It throws before anything is assigned to the shared
  state; otherwise the instance keeps the array the variable referred to (line 84) and the
  variable is bound to a new, empty array (line 86).
\<close>

definition constructor :: "plugin_options \<Rightarrow> gstate \<Rightarrow> error + (plugin \<times> gstate)" where
  "constructor opts g =
     (if truthy (mode opts) \<and> CompilerDelegate opts \<noteq> None
      then Inl (Error ''You can provide a mode or a compiler delegate, but not both.'')
      else
        let this = next_inst g;
            h = set_compiler (arrays g (loaderOptions g)) this (compiler_of g);
            p = \<lparr>this_id = this, options = opts, outputFile = output_opt opts,
                 CompilerDelegate_field = CompilerDelegate opts,
                 dataSegmentModules = [], this_bundle = None,
                 this_loaderOptions = loaderOptions g\<rparr>;
            fresh = next_arr g
        in Inr (p, g\<lparr>compiler_of := h, arrays := (arrays g)(fresh := []),
                      loaderOptions := fresh, next_arr := Suc fresh, next_inst := Suc this\<rparr>))"

text \<open>
  \<^verbatim>\<open>apply\<close> (lines 109-111): the input path is the plugin's \<^verbatim>\<open>context\<close> option or, when that
  is falsy, the host compiler's. The result is the path the 'this-compilation' handler
  closes over.
\<close>

definition apply_plugin :: "plugin \<Rightarrow> string option \<Rightarrow> error + string" where
  "apply_plugin p compiler_context =
     expect (js_or (context_opt (options p)) compiler_context)
       ''expected compiler to have a context''"

section \<open>A build session\<close>

subsection \<open>The host's objects\<close>

text \<open>
  The properties of a host module that the plugin writes: \<^verbatim>\<open>__table\<close> (line 223),
  \<^verbatim>\<open>used\<close> and \<^verbatim>\<open>usedExports\<close> (lines 206-207). \<open>None\<close> is \<^verbatim>\<open>null\<close> or \<^verbatim>\<open>undefined\<close>.
  Modules are objects of the host, shared between \<^verbatim>\<open>compilation.modules\<close> and the
  plugin's list of placeholders, so they live in a store indexed by \<open>mod_id\<close>.
\<close>

record Module =
  table :: "source option"
  used :: "bool option"
  usedExports :: "string list option"

text \<open>
  The part of the host's \<^verbatim>\<open>compilation\<close> object that the plugin touches: its modules, its
  asset map, the calls of \<^verbatim>\<open>finish()\<close> and of \<^verbatim>\<open>rebuildModule(module, callback)\<close> it has
  received, and the handlers registered with \<^verbatim>\<open>compilation.plugin(name, handler)\<close>. An
  'additional-assets' handler is the closure of lines 141-147, which holds the
  \<^verbatim>\<open>bytecode\<close> it will write; the other two kinds of handler are counted.
\<close>

record Compilation =
  modules :: "mod_id list"
  assets :: "string \<Rightarrow> bytecode option"
  finish_calls :: nat
  rebuild_calls :: "mod_id list"
  optimize_tree_plugins :: nat
  additional_assets_plugins :: "bytecode list"
  need_additional_seal_plugins :: nat

definition new_Compilation :: Compilation where
  "new_Compilation =
     \<lparr>modules = [], assets = (\<lambda>_. None), finish_calls = 0, rebuild_calls = [],
      optimize_tree_plugins = 0, additional_assets_plugins = [],
      need_additional_seal_plugins = 0\<rparr>"

subsection \<open>Promises\<close>

datatype promise = Pending | Fulfilled | Rejected error

text \<open>
  One run of the 'optimize-tree' handler: the promises of its rebuild requests, in the
  order of the placeholders, and what its callback \<^verbatim>\<open>cb\<close> was called with (\<open>None\<close>: not
  called yet; \<open>Some None\<close>: \<^verbatim>\<open>cb()\<close>; \<open>Some (Some e)\<close>: \<^verbatim>\<open>cb(e)\<close>).
\<close>

record phase =
  promises :: "promise list"
  completion :: "error option option"

fun first_rejected :: "promise list \<Rightarrow> error option" where
  "first_rejected [] = None"
| "first_rejected (Rejected e # ps) = Some e"
| "first_rejected (p # ps) = first_rejected ps"

definition all_fulfilled :: "promise list \<Rightarrow> bool" where
  "all_fulfilled ps = list_all (\<lambda>p. p = Fulfilled) ps"

text \<open>
  \<^verbatim>\<open>Promise.all(promises).then(() => undefined).then(cb, cb)\<close> (lines 216-217 and 139):
  \<^verbatim>\<open>cb\<close> is called once, with nothing when every promise is fulfilled and with the error
  of the first promise that is rejected.
\<close>

definition promise_all_then :: "promise list \<Rightarrow> phase" where
  "promise_all_then ps =
     \<lparr>promises = ps,
      completion = (case first_rejected ps of
                      Some e \<Rightarrow> Some (Some e)
                    | None \<Rightarrow> if all_fulfilled ps then Some None else None)\<rparr>"

text \<open>
  The callback handed to \<^verbatim>\<open>compilation.rebuildModule\<close> (lines 231-239), called by the
  host for request \<open>i\<close> with \<open>err\<close>: it rejects or resolves promise \<open>i\<close>. A promise that is
  settled stays as it is, and so does a callback that was called.
\<close>

definition rebuild_callback :: "nat \<Rightarrow> error option \<Rightarrow> phase \<Rightarrow> phase" where
  "rebuild_callback i err ph =
     (if i < length (promises ph) \<and> promises ph ! i = Pending then
        (case err of
           Some e \<Rightarrow>
             ph\<lparr>promises := (promises ph)[i := Rejected e],
                completion := (case completion ph of None \<Rightarrow> Some (Some e) | Some r \<Rightarrow> Some r)\<rparr>
         | None \<Rightarrow>
             ph\<lparr>promises := (promises ph)[i := Fulfilled],
                completion :=
                  (case completion ph of
                     None \<Rightarrow> if all_fulfilled ((promises ph)[i := Fulfilled]) then Some None else None
                   | Some r \<Rightarrow> Some r)\<rparr>)
      else ph)"

subsection \<open>The session\<close>

text \<open>
  What the handlers of one build session read and write: the plugin instance, the
  compilation the host passed to 'this-compilation', the store of modules, the closure
  variable \<^verbatim>\<open>resealed\<close> (line 126), one \<open>phase\<close> per run of the 'optimize-tree' handler,
  and the number of calls of \<^verbatim>\<open>this.bundle.compile()\<close>. The closure variable
  \<^verbatim>\<open>dataSegmentModules\<close> and \<^verbatim>\<open>this.dataSegmentModules\<close> are one array from line 118 until
  the next session starts, so the session reads the field of the instance.
\<close>

record world =
  glimmer :: plugin
  compilation :: Compilation
  mheap :: "mod_id \<Rightarrow> Module"
  resealed :: bool
  phases :: "phase list"
  compile_calls :: nat

text \<open>\<^verbatim>\<open>addDataSegmentModule\<close>, \<^verbatim>\<open>addComponent\<close> and \<^verbatim>\<open>addAST\<close> (lines 93-107).\<close>

definition addDataSegmentModule :: "mod_id \<Rightarrow> plugin \<Rightarrow> plugin" where
  "addDataSegmentModule m p = p\<lparr>dataSegmentModules := dataSegmentModules p @ [m]\<rparr>"

definition addComponent :: "string \<Rightarrow> string \<Rightarrow> scope \<Rightarrow> plugin \<Rightarrow> error + plugin" where
  "addComponent path template sc p =
     (case this_bundle p of
        None \<Rightarrow> Inl (TypeError ''Cannot read property add of undefined'')
      | Some b \<Rightarrow> Inr (p\<lparr>this_bundle := Some (bundle_add path template sc b)\<rparr>))"

definition addAST :: "string \<Rightarrow> ast \<Rightarrow> plugin \<Rightarrow> error + plugin" where
  "addAST path a p =
     (case this_bundle p of
        None \<Rightarrow> Inl (TypeError ''Cannot read property addAST of undefined'')
      | Some b \<Rightarrow> Inr (p\<lparr>this_bundle := Some (bundle_addAST path a b)\<rparr>))"

text \<open>
  The 'this-compilation' handler (lines 113-160), for the input path \<^verbatim>\<open>apply\<close> computed.
  Line 118 empties the list before \<^verbatim>\<open>getBundleFor\<close> can throw, so an exception leaves the
  instance with an empty list and its old bundle; otherwise the session starts with the
  'optimize-tree' handler registered on the compilation.
\<close>

definition this_compilation ::
    "string \<Rightarrow> plugin \<Rightarrow> Compilation \<Rightarrow> (mod_id \<Rightarrow> Module) \<Rightarrow> (error \<times> plugin) + world" where
  "this_compilation inputPath p c h =
     (let p1 = p\<lparr>dataSegmentModules := []\<rparr> in
      case getBundleFor p1 inputPath of
        Inl e \<Rightarrow> Inl (e, p1)
      | Inr b \<Rightarrow>
          Inr \<lparr>glimmer = p1\<lparr>this_bundle := Some b\<rparr>,
               compilation = c\<lparr>optimize_tree_plugins := Suc (optimize_tree_plugins c)\<rparr>,
               mheap = h, resealed = False, phases = [], compile_calls = 0\<rparr>)"

text \<open>
  \<^verbatim>\<open>rebuildModule\<close> (lines 227-241): the request goes to the host, the promise is pending
  until the host calls back. The host's \<^verbatim>\<open>compilation.rebuildModule\<close> is taken to return and
  to report a failure through its callback only.
\<close>

definition rebuildModule :: "mod_id \<Rightarrow> world \<Rightarrow> promise \<times> world" where
  "rebuildModule m w =
     (Pending, w\<lparr>compilation := (compilation w)\<lparr>rebuild_calls := rebuild_calls (compilation w) @ [m]\<rparr>\<rparr>)"

text \<open>
  \<^verbatim>\<open>populateDataSegment\<close> (lines 222-225); \<open>set_table\<close> is the assignment
  \<^verbatim>\<open>module.__table = source\<close> on the store.
\<close>

definition set_table :: "source \<Rightarrow> mod_id \<Rightarrow> (mod_id \<Rightarrow> Module) \<Rightarrow> (mod_id \<Rightarrow> Module)" where
  "set_table src m h = h(m := (h m)\<lparr>table := Some src\<rparr>)"

definition populateDataSegment :: "mod_id \<Rightarrow> source \<Rightarrow> world \<Rightarrow> promise \<times> world" where
  "populateDataSegment m src w = rebuildModule m (w\<lparr>mheap := set_table src m (mheap w)\<rparr>)"

text \<open>\<^verbatim>\<open>modules.map(m => populateDataSegment(m, compilation, source))\<close> (line 214).\<close>

fun populate_each :: "mod_id list \<Rightarrow> source \<Rightarrow> world \<Rightarrow> promise list \<times> world" where
  "populate_each [] src w = ([], w)"
| "populate_each (m # ms) src w =
     (case populateDataSegment m src w of
        (p, w1) \<Rightarrow> (case populate_each ms src w1 of (ps, w2) \<Rightarrow> (p # ps, w2)))"

text \<open>
  \<^verbatim>\<open>rewriteDataSegmentModules(...).then(cb, cb)\<close> (lines 213-218 with line 139): the
  promises of the rebuild requests and the state of the callback.
\<close>

definition rewriteDataSegmentModules :: "mod_id list \<Rightarrow> source \<Rightarrow> world \<Rightarrow> phase \<times> world" where
  "rewriteDataSegmentModules ms src w =
     (case populate_each ms src w of (ps, w') \<Rightarrow> (promise_all_then ps, w'))"

text \<open>
  The 'optimize-tree' handler (lines 128-159). The first component is the exception the
  handler throws, if any: \<^verbatim>\<open>this.bundle.compile()\<close> is called outside any \<^verbatim>\<open>try\<close>, so
  what it throws leaves the handler before \<^verbatim>\<open>cb\<close> is used.
\<close>

definition optimize_tree :: "compile_fn \<Rightarrow> world \<Rightarrow> error option \<times> world" where
  "optimize_tree compile w =
     (if resealed w then
        (None, w\<lparr>phases := phases w @ [\<lparr>promises = [], completion = Some None\<rparr>]\<rparr>)
      else
        (case this_bundle (glimmer w) of
           None \<Rightarrow> (Some (TypeError ''Cannot read property compile of undefined''), w)
         | Some b \<Rightarrow>
             (let w0 = w\<lparr>compile_calls := Suc (compile_calls w)\<rparr> in
              case compile b of
                Inl e \<Rightarrow> (Some e, w0)
              | Inr (bytecode, data) \<Rightarrow>
                  (case rewriteDataSegmentModules (dataSegmentModules (glimmer w0)) data w0 of
                     (ph, w1) \<Rightarrow>
                       (None,
                        w1\<lparr>compilation :=
                             (compilation w1)
                               \<lparr>additional_assets_plugins :=
                                  additional_assets_plugins (compilation w1) @ [bytecode],
                                need_additional_seal_plugins :=
                                  Suc (need_additional_seal_plugins (compilation w1))\<rparr>,
                           phases := phases w1 @ [ph]\<rparr>)))))"

text \<open>The host calls back for request \<open>i\<close> of phase \<open>k\<close>.\<close>

definition rebuild_done :: "nat \<Rightarrow> nat \<Rightarrow> error option \<Rightarrow> world \<Rightarrow> world" where
  "rebuild_done k i err w =
     (if k < length (phases w)
      then w\<lparr>phases := (phases w)[k := rebuild_callback i err (phases w ! k)]\<rparr>
      else w)"

text \<open>
  One 'additional-assets' handler (lines 141-147), and the event, which runs every
  handler registered, in the order of registration.
\<close>

definition additional_assets_handler :: "bytecode \<Rightarrow> world \<Rightarrow> world" where
  "additional_assets_handler bytecode w =
     w\<lparr>compilation :=
         (compilation w)
           \<lparr>assets := (assets (compilation w))(output_opt (options (glimmer w)) := Some bytecode)\<rparr>\<rparr>"

definition additional_assets :: "world \<Rightarrow> world" where
  "additional_assets w = fold additional_assets_handler (additional_assets_plugins (compilation w)) w"

text \<open>
  \<^verbatim>\<open>resetCompilation\<close> (lines 204-211). The host's \<^verbatim>\<open>compilation.finish()\<close> is counted and
  taken to return.
\<close>

definition reset_module :: "mod_id \<Rightarrow> (mod_id \<Rightarrow> Module) \<Rightarrow> (mod_id \<Rightarrow> Module)" where
  "reset_module m h = h(m := (h m)\<lparr>used := None, usedExports := None\<rparr>)"

definition resetCompilation :: "world \<Rightarrow> world" where
  "resetCompilation w =
     w\<lparr>mheap := fold reset_module (modules (compilation w)) (mheap w),
       compilation := (compilation w)\<lparr>finish_calls := Suc (finish_calls (compilation w))\<rparr>\<rparr>"

text \<open>
  The 'need-additional-seal' handler (lines 149-158), and the event: the host takes the
  answer of the first handler that gives one, and every handler of this plugin gives
  one, so the event runs the handler once when one is registered.
\<close>

definition need_additional_seal_handler :: "world \<Rightarrow> bool \<times> world" where
  "need_additional_seal_handler w =
     (if resealed w then (False, w)
      else (True, (resetCompilation w)\<lparr>resealed := True\<rparr>))"

definition need_additional_seal :: "world \<Rightarrow> bool option \<times> world" where
  "need_additional_seal w =
     (if need_additional_seal_plugins (compilation w) = 0 then (None, w)
      else (case need_additional_seal_handler w of (r, w') \<Rightarrow> (Some r, w')))"

subsection \<open>What can happen during a session\<close>

text \<open>
  The calls the host and the loaders make while a session lasts, the start of the next
  session apart: the phases of the host, the callback of a rebuild request, a module the
  host adds to the compilation, and the three registrations of the loaders.
\<close>

datatype registration =
    ModuleAdded mod_id
  | AddDataSegmentModule mod_id
  | AddComponent string string scope
  | AddAST string ast

datatype event =
    OptimizeTree
  | RebuildDone nat nat "error option"
  | AdditionalAssets
  | NeedAdditionalSeal
  | Register registration

definition on_plugin :: "(plugin \<Rightarrow> error + plugin) \<Rightarrow> world \<Rightarrow> world" where
  "on_plugin f w = (case f (glimmer w) of Inl e \<Rightarrow> w | Inr p \<Rightarrow> w\<lparr>glimmer := p\<rparr>)"

fun register :: "registration \<Rightarrow> world \<Rightarrow> world" where
  "register (ModuleAdded m) w =
     w\<lparr>compilation := (compilation w)\<lparr>modules := modules (compilation w) @ [m]\<rparr>\<rparr>"
| "register (AddDataSegmentModule m) w = w\<lparr>glimmer := addDataSegmentModule m (glimmer w)\<rparr>"
| "register (AddComponent path template sc) w = on_plugin (addComponent path template sc) w"
| "register (AddAST path a) w = on_plugin (addAST path a) w"

fun step :: "compile_fn \<Rightarrow> event \<Rightarrow> world \<Rightarrow> world" where
  "step compile OptimizeTree w = snd (optimize_tree compile w)"
| "step compile (RebuildDone k i err) w = rebuild_done k i err w"
| "step compile AdditionalAssets w = additional_assets w"
| "step compile NeedAdditionalSeal w = snd (need_additional_seal w)"
| "step compile (Register r) w = register r w"

text \<open>The answers the 'need-additional-seal' handler gives along a run, in order.\<close>

fun seal_answers :: "compile_fn \<Rightarrow> event list \<Rightarrow> world \<Rightarrow> bool list" where
  "seal_answers compile [] w = []"
| "seal_answers compile (NeedAdditionalSeal # evs) w =
     (case need_additional_seal w of
        (None, w') \<Rightarrow> seal_answers compile evs w'
      | (Some r, w') \<Rightarrow> r # seal_answers compile evs w')"
| "seal_answers compile (ev # evs) w = seal_answers compile evs (step compile ev w)"

fun run :: "compile_fn \<Rightarrow> event list \<Rightarrow> world \<Rightarrow> world" where
  "run compile [] w = w"
| "run compile (ev # evs) w = run compile evs (step compile ev w)"

subsection \<open>The host's seal loop\<close>

text \<open>
  Modelled from the spec: the host build system is not of this repository, and the spec
  gives its hooks in section 6. The optimize phase is awaited, and a phase that fails
  aborts the build (sections 5 and 7); 'emit assets' fires during asset writing; the
  'need additional reseal' predicate is polled once per optimize phase, and a true answer
  causes one more full pass. The spec does not say whether assets are emitted before or
  after the poll, nor whether the host empties its asset map when it seals again, so both
  are parameters of the host: the theorems about a build hold for every choice.
  \<open>sched\<close> is the order in which the host calls back for the rebuild requests of the
  first pass, each with its error if any.
\<close>

record host =
  emit_first :: bool
  unseal_clears_assets :: bool

datatype build_result = BuildOk | BuildFailed error | BuildThrew error | BuildHung

datatype pass_result = Stop build_result | Reseal

definition deliver :: "nat \<Rightarrow> (nat \<times> error option) list \<Rightarrow> world \<Rightarrow> world" where
  "deliver k sched w = fold (\<lambda>(i, err). rebuild_done k i err) sched w"

definition unseal :: "host \<Rightarrow> world \<Rightarrow> world" where
  "unseal h w =
     (if unseal_clears_assets h
      then w\<lparr>compilation := (compilation w)\<lparr>assets := (\<lambda>_. None)\<rparr>\<rparr> else w)"

definition seal_pass ::
    "host \<Rightarrow> compile_fn \<Rightarrow> (nat \<times> error option) list \<Rightarrow> world \<Rightarrow> pass_result \<times> world" where
  "seal_pass h compile sched w =
     (case optimize_tree compile w of
        (Some e, w1) \<Rightarrow> (Stop (BuildThrew e), w1)
      | (None, w1) \<Rightarrow>
          (let w2 = deliver (length (phases w)) sched w1 in
           case completion (phases w2 ! length (phases w)) of
             None \<Rightarrow> (Stop BuildHung, w2)
           | Some (Some e) \<Rightarrow> (Stop (BuildFailed e), w2)
           | Some None \<Rightarrow>
               (let w3 = (if emit_first h then additional_assets w2 else w2) in
                case need_additional_seal w3 of
                  (Some True, w4) \<Rightarrow> (Reseal, unseal h w4)
                | (_, w4) \<Rightarrow>
                    (Stop BuildOk, if emit_first h then w4 else additional_assets w4))))"

function seal ::
    "host \<Rightarrow> compile_fn \<Rightarrow> (nat \<times> error option) list \<Rightarrow> world \<Rightarrow> build_result \<times> world" where
  "seal h compile sched w =
     (case seal_pass h compile sched w of
        (Reseal, w') \<Rightarrow> seal h compile [] w'
      | (Stop r, w') \<Rightarrow> (r, w'))"
  by pat_completeness auto
termination
proof (relation "measure (\<lambda>(h, compile, sched, w). if resealed w then 0 else 1)")
  show "wf (measure (\<lambda>(h, compile, sched, w). if resealed w then 0 else (1::nat)))"
    by simp
next
  fix h :: host and compile :: compile_fn and sched :: "(nat \<times> error option) list"
    and w :: world and x :: pass_result and w' :: world
  assume pass: "(x, w') = seal_pass h compile sched w" and again: "x = Reseal"
  have pds: "snd (populateDataSegment m src v) =
      v\<lparr>mheap := set_table src m (mheap v),
        compilation := (compilation v)\<lparr>rebuild_calls := rebuild_calls (compilation v) @ [m]\<rparr>\<rparr>"
    for m src v
    by (simp add: populateDataSegment_def rebuildModule_def)
  have pe_cons: "snd (populate_each (m # ms) src v) =
      snd (populate_each ms src (snd (populateDataSegment m src v)))" for m ms src v
    by (simp split: prod.splits)
  have pe: "resealed (snd (populate_each ms src v)) = resealed v" for ms src v
  proof (induction ms arbitrary: v)
    case Nil
    show ?case by simp
  next
    case (Cons m ms)
    show ?case unfolding pe_cons by (simp add: Cons.IH pds)
  qed
  have rw: "resealed (snd (rewriteDataSegmentModules ms src v)) = resealed v" for ms src v
  proof -
    obtain ps v' where e: "populate_each ms src v = (ps, v')"
      by (cases "populate_each ms src v")
    with pe [of ms src v] show ?thesis
      by (simp add: rewriteDataSegmentModules_def)
  qed
  have ot: "resealed (snd (optimize_tree compile w)) = resealed w"
  proof (cases "resealed w")
    case True
    then show ?thesis by (simp add: optimize_tree_def)
  next
    case False
    show ?thesis
    proof (cases "this_bundle (glimmer w)")
      case None
      with False show ?thesis by (simp add: optimize_tree_def)
    next
      case (Some b)
      show ?thesis
      proof (cases "compile b")
        case (Inl e)
        with False Some show ?thesis by (simp add: optimize_tree_def)
      next
        case (Inr r)
        obtain bc data where r: "r = (bc, data)" by (cases r)
        obtain ph w1 where rr: "rewriteDataSegmentModules (dataSegmentModules (glimmer w)) data
            (w\<lparr>compile_calls := Suc (compile_calls w)\<rparr>) = (ph, w1)"
          by (cases "rewriteDataSegmentModules (dataSegmentModules (glimmer w)) data
            (w\<lparr>compile_calls := Suc (compile_calls w)\<rparr>)")
        from rw [of "dataSegmentModules (glimmer w)" data "w\<lparr>compile_calls := Suc (compile_calls w)\<rparr>"] rr
        have "resealed w1 = resealed w" by simp
        with False Some Inr r rr show ?thesis by (simp add: optimize_tree_def)
      qed
    qed
  qed
  have rd: "resealed (rebuild_done k i err v) = resealed v" for k i err v
    by (simp add: rebuild_done_def)
  have dl: "resealed (deliver k sc v) = resealed v" for k sc v
    unfolding deliver_def
    by (induction sc arbitrary: v) (simp_all add: rd split: prod.splits)
  have ah: "resealed (fold additional_assets_handler bs v) = resealed v" for bs v
    by (induction bs arbitrary: v) (simp_all add: additional_assets_handler_def)
  have aa: "resealed (additional_assets v) = resealed v" for v
    by (simp add: additional_assets_def ah)
  have ns: "need_additional_seal v = (Some True, v') \<Longrightarrow> \<not> resealed v \<and> resealed v'" for v v'
    by (auto simp: need_additional_seal_def need_additional_seal_handler_def
        split: if_splits)
  have us: "resealed (unseal h v) = resealed v" for v
    by (simp add: unseal_def)
  obtain thrown w1 where o: "optimize_tree compile w = (thrown, w1)"
    by (cases "optimize_tree compile w")
  with ot have r1: "resealed w1 = resealed w" by simp
  define w2 where "w2 = deliver (length (phases w)) sched w1"
  define w3 where "w3 = (if emit_first h then additional_assets w2 else w2)"
  have r3: "resealed w3 = resealed w" by (simp add: w3_def w2_def aa dl r1)
  obtain a w4 where n: "need_additional_seal w3 = (a, w4)"
    by (cases "need_additional_seal w3")
  from pass again o n have "a = Some True \<and> w' = unseal h w4"
    by (auto simp: seal_pass_def Let_def w2_def [symmetric] w3_def [symmetric]
        split: option.splits bool.splits)
  with n ns [of w3 w4] r3 us [of w4] have "\<not> resealed w \<and> resealed w'"
    by simp
  then show "((h, compile, [], w'), (h, compile, sched, w))
      \<in> measure (\<lambda>(h, compile, sched, w). if resealed w then 0 else 1)"
    by simp
qed

declare seal.simps [simp del]

text \<open>
  One build: the host creates a compilation, fires 'this-compilation', processes the
  modules (the loaders register what they find), and seals.
\<close>

definition run_build ::
    "host \<Rightarrow> compile_fn \<Rightarrow> string \<Rightarrow> plugin \<Rightarrow> (mod_id \<Rightarrow> Module) \<Rightarrow> registration list \<Rightarrow>
     (nat \<times> error option) list \<Rightarrow> (error \<times> plugin) + (build_result \<times> world)" where
  "run_build h compile inputPath p heap found sched =
     (case this_compilation inputPath p new_Compilation heap of
        Inl ep \<Rightarrow> Inl ep
      | Inr w \<Rightarrow> Inr (seal h compile sched (fold register found w)))"

text \<open>
  The host's callbacks \<open>sched\<close> on the promises of one phase, in order; \<open>deliver\<close> does
  this to phase \<open>k\<close> of a session.
\<close>

definition settle :: "(nat \<times> error option) list \<Rightarrow> phase \<Rightarrow> phase" where
  "settle sched ph = fold (\<lambda>(i, err). rebuild_callback i err) sched ph"

subsection \<open>Inputs for the examples\<close>

text \<open>
  The options and the instance of a plugin configured with the mode \<open>m\<close> and the delegate
  \<open>d\<close>, as the constructor builds it first in a process.
\<close>

definition example_options :: "string option \<Rightarrow> delegate_ctor option \<Rightarrow> plugin_options" where
  "example_options m d =
     \<lparr>output_opt = ''templates.gbx'', context_opt = Some ''/app'', mode = m,
      CompilerDelegate = d, builtins_opt = None, mainPath = None\<rparr>"

definition example_plugin :: "string option \<Rightarrow> delegate_ctor option \<Rightarrow> plugin" where
  "example_plugin m d =
     \<lparr>this_id = 0, options = example_options m d, outputFile = ''templates.gbx'',
      CompilerDelegate_field = d, dataSegmentModules = [], this_bundle = None,
      this_loaderOptions = 0\<rparr>"

definition example_heap :: "mod_id \<Rightarrow> Module" where
  "example_heap = (\<lambda>_. \<lparr>table = None, used = Some True, usedExports = Some []\<rparr>)"

definition example_found :: "registration list" where
  "example_found =
     [ModuleAdded 1, ModuleAdded 2, ModuleAdded 3, AddDataSegmentModule 1,
      AddDataSegmentModule 2, AddComponent ''app'' ''<b>hi</b>'' ''scope'']"

definition example_compile :: compile_fn where
  "example_compile b = Inr (''BYTES'', ''var data = 1;'')"

definition failing_compile :: compile_fn where
  "failing_compile b = Inl (Error ''boom'')"

text \<open>A compile step whose result depends on what the bundle holds.\<close>

definition template_compile :: compile_fn where
  "template_compile b = Inr (concat (map (\<lambda>(pa, t, sc). t) (b_templates b)), b_inputPath b)"

definition example_host :: host where
  "example_host = \<lparr>emit_first = True, unseal_clears_assets = True\<rparr>"

text \<open>
  The session of a plugin in the mode 'module-unification' after the loaders have
  registered three modules, two of them placeholders, and one component.
\<close>

definition example_session :: world where
  "example_session =
     (case this_compilation ''/app'' (example_plugin (Some ''module-unification'') None)
             new_Compilation example_heap of
        Inr w \<Rightarrow> fold register example_found w
      | Inl ep \<Rightarrow>
          \<lparr>glimmer = snd ep, compilation = new_Compilation, mheap = example_heap,
           resealed = False, phases = [], compile_calls = 0\<rparr>)"

text \<open>The bundle of that session when the optimize phase starts.\<close>

definition example_bundle :: Bundle where
  "example_bundle =
     \<lparr>b_inputPath = ''/app'',
      b_delegate =
        \<lparr>d_ctor = MUCompilerDelegate, projectPath = ''/app'',
         dataSegment = ''table.js'', heapFile = ''templates.gbx'',
         d_builtins = None, mainTemplateLocator = None\<rparr>,
      b_mainPath = None, b_templates = [(''app'', ''<b>hi</b>'', ''scope'')],
      b_asts = []\<rparr>"

text \<open>
  The store after \<^verbatim>\<open>GlimmerCompiler.component()\<close> and \<^verbatim>\<open>GlimmerCompiler.data()\<close> were
  called in a new process.
\<close>

definition example_gstate :: gstate where
  "example_gstate =
     snd (loader ''./loaders/data'' (snd (loader ''./loaders/component'' initial_gstate)))"

section \<open>Properties\<close>

subsection \<open>The handlers in closed form\<close>

lemma populateDataSegment_eq:
  "populateDataSegment m src v =
     (Pending,
      v\<lparr>mheap := set_table src m (mheap v),
        compilation := (compilation v)\<lparr>rebuild_calls := rebuild_calls (compilation v) @ [m]\<rparr>\<rparr>)"
  by (simp add: populateDataSegment_def rebuildModule_def)

lemma populate_each_Cons:
  "populate_each (m # ms) src v =
     (Pending # fst (populate_each ms src (snd (populateDataSegment m src v))),
      snd (populate_each ms src (snd (populateDataSegment m src v))))"
  by (simp add: populateDataSegment_eq split: prod.splits)

lemma fst_populate_each: "fst (populate_each ms src v) = replicate (length ms) Pending"
proof (induction ms arbitrary: v)
  case Nil
  show ?case by simp
next
  case (Cons m ms)
  show ?case unfolding populate_each_Cons by (simp add: Cons.IH)
qed

lemma snd_populate_each:
  "snd (populate_each ms src v) =
     v\<lparr>mheap := fold (set_table src) ms (mheap v),
       compilation := (compilation v)\<lparr>rebuild_calls := rebuild_calls (compilation v) @ ms\<rparr>\<rparr>"
proof (induction ms arbitrary: v)
  case Nil
  show ?case by simp
next
  case (Cons m ms)
  show ?case unfolding populate_each_Cons snd_conv Cons.IH
    by (simp add: populateDataSegment_eq)
qed

lemma rewriteDataSegmentModules_eq:
  "rewriteDataSegmentModules ms src v =
     (promise_all_then (replicate (length ms) Pending),
      v\<lparr>mheap := fold (set_table src) ms (mheap v),
        compilation := (compilation v)\<lparr>rebuild_calls := rebuild_calls (compilation v) @ ms\<rparr>\<rparr>)"
proof -
  obtain ps v' where e: "populate_each ms src v = (ps, v')"
    by (cases "populate_each ms src v")
  with fst_populate_each [of ms src v] snd_populate_each [of ms src v] show ?thesis
    by (simp add: rewriteDataSegmentModules_def)
qed

lemma first_rejected_replicate: "first_rejected (replicate n Pending) = None"
  by (induction n) simp_all

lemma all_fulfilled_replicate: "all_fulfilled (replicate n Pending) = (n = 0)"
  by (cases n) (simp_all add: all_fulfilled_def)

lemma promise_all_then_pending:
  "promise_all_then (replicate n Pending) =
     \<lparr>promises = replicate n Pending, completion = (if n = 0 then Some None else None)\<rparr>"
  by (simp add: promise_all_then_def first_rejected_replicate all_fulfilled_replicate)

lemma optimize_tree_resealed:
  "resealed w \<Longrightarrow>
     optimize_tree compile w =
       (None, w\<lparr>phases := phases w @ [\<lparr>promises = [], completion = Some None\<rparr>]\<rparr>)"
  by (simp add: optimize_tree_def)

lemma optimize_tree_throws:
  "\<not> resealed w \<Longrightarrow> this_bundle (glimmer w) = Some b \<Longrightarrow> compile b = Inl e \<Longrightarrow>
     optimize_tree compile w = (Some e, w\<lparr>compile_calls := Suc (compile_calls w)\<rparr>)"
  by (simp add: optimize_tree_def)

lemma optimize_tree_compiles:
  "\<not> resealed w \<Longrightarrow> this_bundle (glimmer w) = Some b \<Longrightarrow> compile b = Inr (bc, data) \<Longrightarrow>
     optimize_tree compile w =
       (None,
        w\<lparr>compile_calls := Suc (compile_calls w),
          mheap := fold (set_table data) (dataSegmentModules (glimmer w)) (mheap w),
          compilation :=
            (compilation w)
              \<lparr>rebuild_calls := rebuild_calls (compilation w) @ dataSegmentModules (glimmer w),
               additional_assets_plugins := additional_assets_plugins (compilation w) @ [bc],
               need_additional_seal_plugins := Suc (need_additional_seal_plugins (compilation w))\<rparr>,
          phases := phases w @
            [\<lparr>promises = replicate (length (dataSegmentModules (glimmer w))) Pending,
              completion = (if dataSegmentModules (glimmer w) = [] then Some None else None)\<rparr>]\<rparr>)"
  by (simp add: optimize_tree_def rewriteDataSegmentModules_eq promise_all_then_pending)

lemma optimize_tree_no_bundle:
  "\<not> resealed w \<Longrightarrow> this_bundle (glimmer w) = None \<Longrightarrow>
     optimize_tree compile w = (Some (TypeError ''Cannot read property compile of undefined''), w)"
  by (simp add: optimize_tree_def)

lemma optimize_tree_cases:
  obtains (skip) "resealed w"
      "optimize_tree compile w =
         (None, w\<lparr>phases := phases w @ [\<lparr>promises = [], completion = Some None\<rparr>]\<rparr>)"
  | (no_bundle) "\<not> resealed w" "this_bundle (glimmer w) = None"
      "optimize_tree compile w =
         (Some (TypeError ''Cannot read property compile of undefined''), w)"
  | (throws) b e where "\<not> resealed w" "this_bundle (glimmer w) = Some b" "compile b = Inl e"
      "optimize_tree compile w = (Some e, w\<lparr>compile_calls := Suc (compile_calls w)\<rparr>)"
  | (compiles) b bc data where "\<not> resealed w" "this_bundle (glimmer w) = Some b"
      "compile b = Inr (bc, data)"
      "optimize_tree compile w =
       (None,
        w\<lparr>compile_calls := Suc (compile_calls w),
          mheap := fold (set_table data) (dataSegmentModules (glimmer w)) (mheap w),
          compilation :=
            (compilation w)
              \<lparr>rebuild_calls := rebuild_calls (compilation w) @ dataSegmentModules (glimmer w),
               additional_assets_plugins := additional_assets_plugins (compilation w) @ [bc],
               need_additional_seal_plugins := Suc (need_additional_seal_plugins (compilation w))\<rparr>,
          phases := phases w @
            [\<lparr>promises = replicate (length (dataSegmentModules (glimmer w))) Pending,
              completion = (if dataSegmentModules (glimmer w) = [] then Some None else None)\<rparr>]\<rparr>)"
proof (cases "resealed w")
  case True
  then show ?thesis using skip optimize_tree_resealed by blast
next
  case False
  show ?thesis
  proof (cases "this_bundle (glimmer w)")
    case None
    with False show ?thesis using no_bundle optimize_tree_no_bundle by blast
  next
    case (Some b)
    show ?thesis
    proof (cases "compile b")
      case (Inl e)
      with False Some show ?thesis using throws optimize_tree_throws by blast
    next
      case (Inr r)
      obtain bc data where "r = (bc, data)" by (cases r)
      with False Some Inr show ?thesis using compiles optimize_tree_compiles by blast
    qed
  qed
qed

lemma resealed_optimize_tree: "resealed (snd (optimize_tree compile w)) = resealed w"
  by (rule optimize_tree_cases [where w = w and compile = compile]) simp_all

lemma glimmer_optimize_tree: "glimmer (snd (optimize_tree compile w)) = glimmer w"
  by (rule optimize_tree_cases [where w = w and compile = compile]) simp_all

lemma fold_additional_assets_handler:
  "fold additional_assets_handler bs v =
     v\<lparr>compilation :=
         (compilation v)
           \<lparr>assets := fold (\<lambda>bc a. a(output_opt (options (glimmer v)) := Some bc)) bs
                        (assets (compilation v))\<rparr>\<rparr>"
  by (induction bs arbitrary: v) (simp_all add: additional_assets_handler_def)

lemma additional_assets_eq:
  "additional_assets v =
     v\<lparr>compilation :=
         (compilation v)
           \<lparr>assets := fold (\<lambda>bc a. a(output_opt (options (glimmer v)) := Some bc))
                        (additional_assets_plugins (compilation v)) (assets (compilation v))\<rparr>\<rparr>"
  by (simp add: additional_assets_def fold_additional_assets_handler)

lemma need_additional_seal_eq:
  "need_additional_seal v =
     (if need_additional_seal_plugins (compilation v) = 0 then (None, v)
      else if resealed v then (Some False, v)
      else (Some True, (resetCompilation v)\<lparr>resealed := True\<rparr>))"
  by (simp add: need_additional_seal_def need_additional_seal_handler_def)

lemma resealed_register: "resealed (register r v) = resealed v"
  by (cases r) (simp_all add: on_plugin_def split: sum.splits)

lemma resealed_step:
  "resealed (step compile ev v) =
     (resealed v \<or> (ev = NeedAdditionalSeal \<and> need_additional_seal_plugins (compilation v) \<noteq> 0))"
  by (cases ev)
     (simp_all add: resealed_optimize_tree rebuild_done_def additional_assets_eq
        need_additional_seal_eq resealed_register resetCompilation_def)

lemma resealed_run: "resealed v \<Longrightarrow> resealed (run compile evs v)"
proof (induction evs arbitrary: v)
  case Nil
  then show ?case by simp
next
  case (Cons ev evs)
  have "resealed (step compile ev v)"
    unfolding resealed_step using Cons.prems by simp
  from Cons.IH [OF this] show ?case by simp
qed

lemma seal_answers_tripped:
  "resealed v \<Longrightarrow> seal_answers compile evs v = replicate (length (seal_answers compile evs v)) False"
proof (induction evs arbitrary: v)
  case Nil
  show ?case by simp
next
  case (Cons ev evs)
  have next_tripped: "resealed (step compile ev v)"
    unfolding resealed_step using Cons.prems by simp
  show ?case
  proof (cases ev)
    case NeedAdditionalSeal
    with Cons.prems Cons.IH [of v] show ?thesis
      by (simp add: need_additional_seal_eq)
  qed (use Cons.IH [OF next_tripped] in simp_all)
qed

lemma seal_answers_fresh:
  "\<not> resealed w \<Longrightarrow>
     seal_answers compile evs w = [] \<or>
     seal_answers compile evs w = True # replicate (length (seal_answers compile evs w) - 1) False"
proof (induction evs arbitrary: w)
  case Nil
  show ?case by simp
next
  case (Cons ev evs)
  show ?case
  proof (cases ev)
    case NeedAdditionalSeal
    show ?thesis
    proof (cases "need_additional_seal_plugins (compilation w) = 0")
      case True
      with NeedAdditionalSeal Cons.IH [OF Cons.prems] show ?thesis
        by (simp add: need_additional_seal_eq)
    next
      case False
      have "resealed ((resetCompilation w)\<lparr>resealed := True\<rparr>)" by simp
      from seal_answers_tripped [OF this, of compile evs]
      show ?thesis
        using NeedAdditionalSeal False Cons.prems by (simp add: need_additional_seal_eq)
    qed
  next
    case OptimizeTree
    have "\<not> resealed (step compile ev w)"
      unfolding resealed_step using Cons.prems OptimizeTree by simp
    from Cons.IH [OF this] OptimizeTree show ?thesis by simp
  next
    case (RebuildDone k i err)
    have "\<not> resealed (step compile ev w)"
      unfolding resealed_step using Cons.prems RebuildDone by simp
    from Cons.IH [OF this] RebuildDone show ?thesis by simp
  next
    case AdditionalAssets
    have "\<not> resealed (step compile ev w)"
      unfolding resealed_step using Cons.prems AdditionalAssets by simp
    from Cons.IH [OF this] AdditionalAssets show ?thesis by simp
  next
    case (Register r)
    have "\<not> resealed (step compile ev w)"
      unfolding resealed_step using Cons.prems Register by simp
    from Cons.IH [OF this] Register show ?thesis by simp
  qed
qed

lemma fold_reset_module_in:
  "m \<in> set ms \<Longrightarrow> used (fold reset_module ms h m) = None \<and> usedExports (fold reset_module ms h m) = None"
proof (induction ms arbitrary: h rule: rev_induct)
  case Nil
  then show ?case by simp
next
  case (snoc x xs)
  then show ?case by (cases "m = x") (simp_all add: reset_module_def)
qed

lemma fold_reset_module_table: "table (fold reset_module ms h m) = table (h m)"
  by (induction ms arbitrary: h) (simp_all add: reset_module_def)

lemma fold_reset_module_notin: "m \<notin> set ms \<Longrightarrow> fold reset_module ms h m = h m"
  by (induction ms arbitrary: h) (simp_all add: reset_module_def)

subsection \<open>The loader options\<close>

lemma set_compiler_keep: "h x = Some this \<Longrightarrow> set_compiler os this h x = Some this"
  by (induction os arbitrary: h) auto

lemma set_compiler_in: "x \<in> set os \<Longrightarrow> set_compiler os this h x = Some this"
  by (induction os arbitrary: h) (auto simp: set_compiler_keep)

lemma set_compiler_notin: "x \<notin> set os \<Longrightarrow> set_compiler os this h x = h x"
  by (induction os arbitrary: h) auto

subsection \<open>A compile step that throws\<close>

lemma seal_pass_throws:
  "\<not> resealed w \<Longrightarrow> this_bundle (glimmer w) = Some b \<Longrightarrow> compile b = Inl e \<Longrightarrow>
     seal_pass h compile sched w = (Stop (BuildThrew e), w\<lparr>compile_calls := Suc (compile_calls w)\<rparr>)"
  by (simp add: seal_pass_def optimize_tree_throws)

lemma seal_throws:
  "\<not> resealed w \<Longrightarrow> this_bundle (glimmer w) = Some b \<Longrightarrow> compile b = Inl e \<Longrightarrow>
     seal h compile sched w = (BuildThrew e, w\<lparr>compile_calls := Suc (compile_calls w)\<rparr>)"
  by (subst seal.simps) (simp add: seal_pass_throws)

subsection \<open>The start of a session and the registrations\<close>

lemma getCompilerDelegateFor_options:
  assumes "options q = options p"
  shows "getCompilerDelegateFor q inputPath = getCompilerDelegateFor p inputPath"
  unfolding getCompilerDelegateFor_def assms ..

lemma getCompilerDelegateFor_emptied:
  "getCompilerDelegateFor (p\<lparr>dataSegmentModules := ms\<rparr>) inputPath = getCompilerDelegateFor p inputPath"
  by (rule getCompilerDelegateFor_options) simp

lemma this_compilation_Inr:
  "getCompilerDelegateFor p inputPath = Inr d \<Longrightarrow>
     this_compilation inputPath p c heap =
       Inr \<lparr>glimmer = p\<lparr>dataSegmentModules := [],
                          this_bundle := Some (new_Bundle inputPath d (mainPath (options p)))\<rparr>,
            compilation = c\<lparr>optimize_tree_plugins := Suc (optimize_tree_plugins c)\<rparr>,
            mheap = heap, resealed = False, phases = [], compile_calls = 0\<rparr>"
  by (simp add: this_compilation_def getBundleFor_def getCompilerDelegateFor_emptied)

lemma this_compilation_Inl:
  "getCompilerDelegateFor p inputPath = Inl e \<Longrightarrow>
     this_compilation inputPath p c heap = Inl (e, p\<lparr>dataSegmentModules := []\<rparr>)"
  by (simp add: this_compilation_def getBundleFor_def getCompilerDelegateFor_emptied)

lemma getCompilerDelegateFor_Inr_iff:
  "(\<exists>d. getCompilerDelegateFor p inputPath = Inr d) \<longleftrightarrow>
     (CompilerDelegate (options p) \<noteq> None \<or> mode (options p) = Some ''module-unification'')"
  by (auto simp: getCompilerDelegateFor_def split: option.splits)

lemma placeholders_register:
  "dataSegmentModules (glimmer (register r v)) =
     dataSegmentModules (glimmer v) @ (case r of AddDataSegmentModule m \<Rightarrow> [m] | _ \<Rightarrow> [])"
  by (cases r) (simp_all add: addDataSegmentModule_def on_plugin_def addComponent_def addAST_def
      split: option.splits)

lemma placeholders_fold_register:
  "dataSegmentModules (glimmer (fold register found v)) =
     dataSegmentModules (glimmer v) @
     concat (map (\<lambda>r. case r of AddDataSegmentModule m \<Rightarrow> [m] | _ \<Rightarrow> []) found)"
  by (induction found arbitrary: v) (simp_all add: placeholders_register)

lemma bundle_register:
  "this_bundle (glimmer v) = Some b \<Longrightarrow>
     this_bundle (glimmer (register r v)) =
       Some (b\<lparr>b_templates := b_templates b @
                   (case r of AddComponent pa t s \<Rightarrow> [(pa, t, s)] | _ \<Rightarrow> []),
                b_asts := b_asts b @ (case r of AddAST pa a \<Rightarrow> [(pa, a)] | _ \<Rightarrow> [])\<rparr>)"
  by (cases r) (simp_all add: addDataSegmentModule_def on_plugin_def addComponent_def addAST_def
      bundle_add_def bundle_addAST_def)

lemma bundle_fold_register:
  "this_bundle (glimmer v) = Some b \<Longrightarrow>
     this_bundle (glimmer (fold register found v)) =
       Some (b\<lparr>b_templates := b_templates b @
                   concat (map (\<lambda>r. case r of AddComponent pa t s \<Rightarrow> [(pa, t, s)] | _ \<Rightarrow> []) found),
                b_asts := b_asts b @
                   concat (map (\<lambda>r. case r of AddAST pa a \<Rightarrow> [(pa, a)] | _ \<Rightarrow> []) found)\<rparr>)"
proof (induction found arbitrary: v b)
  case Nil
  then show ?case by simp
next
  case (Cons r found)
  from Cons.IH [OF bundle_register [OF Cons.prems, of r]] show ?case by simp
qed

subsection \<open>Where a configuration error is raised\<close>

lemma getCompilerDelegateFor_unrecognized:
  "CompilerDelegate (options p) = None \<Longrightarrow> mode (options p) \<noteq> Some ''module-unification'' \<Longrightarrow>
     getCompilerDelegateFor p inputPath =
       Inl (Error (''Unrecognized compiler mode '' @ interpolate (mode (options p))))"
  by (simp add: getCompilerDelegateFor_def)

lemma apply_plugin_host_context: "\<exists>ip. apply_plugin p (Some path) = Inr ip"
  by (simp add: apply_plugin_def js_or_def expect_def truthy_def split: option.splits)

subsection \<open>The callbacks of the rebuild requests\<close>

lemma settle_Nil: "settle [] ph = ph"
  by (simp add: settle_def)

lemma settle_Cons: "settle ((i, err) # sched) ph = settle sched (rebuild_callback i err ph)"
  by (simp add: settle_def)

lemma settle_append: "settle (xs @ ys) ph = settle ys (settle xs ph)"
  by (simp add: settle_def)

lemma settle_snoc: "settle (xs @ [(i, err)]) ph = rebuild_callback i err (settle xs ph)"
  by (simp add: settle_def)

lemma completion_rebuild_callback_kept:
  "completion ph = Some r \<Longrightarrow> completion (rebuild_callback i err ph) = Some r"
  by (simp add: rebuild_callback_def split: option.splits)

lemma completion_settle_kept:
  "completion ph = Some r \<Longrightarrow> completion (settle sched ph) = Some r"
proof (induction sched arbitrary: ph)
  case Nil
  then show ?case by (simp add: settle_Nil)
next
  case (Cons x sched)
  obtain i err where x: "x = (i, err)" by (cases x)
  from Cons.IH [OF completion_rebuild_callback_kept [OF Cons.prems, of i err]]
  show ?case by (simp add: x settle_Cons)
qed

lemma rebuild_callback_no_promises: "promises ph = [] \<Longrightarrow> rebuild_callback i err ph = ph"
  by (simp add: rebuild_callback_def)

lemma settle_no_promises: "promises ph = [] \<Longrightarrow> settle sched ph = ph"
proof (induction sched)
  case Nil
  show ?case by (simp add: settle_Nil)
next
  case (Cons x sched)
  obtain i err where x: "x = (i, err)" by (cases x)
  from Cons show ?case by (simp add: x settle_Cons rebuild_callback_no_promises)
qed

lemma all_fulfilled_nth: "all_fulfilled ps \<longleftrightarrow> (\<forall>j < length ps. ps ! j = Fulfilled)"
  by (simp add: all_fulfilled_def list_all_length)

lemma deliver_eq:
  "k < length (phases v) \<Longrightarrow>
     deliver k sched v = v\<lparr>phases := (phases v)[k := settle sched (phases v ! k)]\<rparr>"
proof (induction sched arbitrary: v)
  case Nil
  then show ?case by (simp add: deliver_def settle_Nil)
next
  case (Cons x sched)
  obtain i err where x: "x = (i, err)" by (cases x)
  let ?v1 = "rebuild_done k i err v"
  have v1: "?v1 = v\<lparr>phases := (phases v)[k := rebuild_callback i err (phases v ! k)]\<rparr>"
    using Cons.prems by (simp add: rebuild_done_def)
  have k1: "k < length (phases ?v1)"
    using Cons.prems by (simp add: v1)
  have "deliver k (x # sched) v = deliver k sched ?v1"
    by (simp add: deliver_def x)
  also have "\<dots> = ?v1\<lparr>phases := (phases ?v1)[k := settle sched (phases ?v1 ! k)]\<rparr>"
    by (rule Cons.IH [OF k1])
  also have "\<dots> = v\<lparr>phases := (phases v)[k := settle (x # sched) (phases v ! k)]\<rparr>"
    using Cons.prems by (simp add: v1 x settle_Cons)
  finally show ?case .
qed

lemma settle_quiet:
  assumes quiet: "\<forall>x \<in> set sched. snd x = None"
  shows "settle sched \<lparr>promises = replicate n Pending,
                        completion = (if n = 0 then Some None else None)\<rparr> =
         \<lparr>promises = map (\<lambda>j. if j \<in> fst ` set sched then Fulfilled else Pending) [0..<n],
          completion = (if {..<n} \<subseteq> fst ` set sched then Some None else None)\<rparr>"
  using quiet
proof (induction sched rule: rev_induct)
  case Nil
  show ?case by (auto simp: settle_Nil map_replicate_const)
next
  case (snoc x xs)
  obtain i err where x: "x = (i, err)" by (cases x)
  from snoc.prems have err: "err = None" and q: "\<forall>x \<in> set xs. snd x = None"
    by (simp_all add: x)
  let ?F = "fst ` set xs"
  let ?P = "map (\<lambda>j. if j \<in> ?F then Fulfilled else Pending) [0..<n]"
  let ?ph = "\<lparr>promises = ?P, completion = (if {..<n} \<subseteq> ?F then Some None else None)\<rparr>"
  have IH: "settle xs \<lparr>promises = replicate n Pending,
                        completion = (if n = 0 then Some None else None)\<rparr> = ?ph"
    by (rule snoc.IH [OF q])
  have F': "fst ` set (xs @ [(i, None)]) = insert i ?F"
    by simp
  show ?case
  proof (cases "i < n \<and> i \<notin> ?F")
    case True
    then have pend: "i < length ?P \<and> ?P ! i = Pending" by simp
    have notsub: "\<not> {..<n} \<subseteq> ?F" using True by auto
    have upd: "?P[i := Fulfilled] =
        map (\<lambda>j. if j \<in> insert i ?F then Fulfilled else Pending) [0..<n]"
    proof (rule nth_equalityI)
      show "length (?P[i := Fulfilled]) =
          length (map (\<lambda>j. if j \<in> insert i ?F then Fulfilled else Pending) [0..<n])"
        by simp
    next
      fix j
      assume "j < length (?P[i := Fulfilled])"
      then have j: "j < n" by simp
      show "?P[i := Fulfilled] ! j =
          map (\<lambda>j. if j \<in> insert i ?F then Fulfilled else Pending) [0..<n] ! j"
      proof (cases "j = i")
        case True
        with j show ?thesis by simp
      next
        case False
        with j show ?thesis by simp
      qed
    qed
    have allf: "all_fulfilled (map (\<lambda>j. if j \<in> insert i ?F then Fulfilled else Pending) [0..<n])
        \<longleftrightarrow> {..<n} \<subseteq> insert i ?F"
      by (auto simp: all_fulfilled_nth)
    have "rebuild_callback i None ?ph =
        \<lparr>promises = ?P[i := Fulfilled],
         completion = (if all_fulfilled (?P[i := Fulfilled]) then Some None else None)\<rparr>"
      using pend notsub by (simp add: rebuild_callback_def del: upt.simps)
    then have "rebuild_callback i None ?ph =
        \<lparr>promises = map (\<lambda>j. if j \<in> insert i ?F then Fulfilled else Pending) [0..<n],
         completion = (if {..<n} \<subseteq> insert i ?F then Some None else None)\<rparr>"
      by (simp only: upd allf)
    then show ?thesis
      by (simp only: x err settle_snoc IH F')
  next
    case False
    have guard: "\<not> (i < length (promises ?ph) \<and> promises ?ph ! i = Pending)"
    proof (cases "i < n")
      case True
      with False have "i \<in> ?F" by simp
      with True show ?thesis by simp
    next
      case False
      then show ?thesis by simp
    qed
    have same: "rebuild_callback i None ?ph = ?ph"
      unfolding rebuild_callback_def by (simp only: guard if_False)
    have P': "map (\<lambda>j. if j \<in> insert i ?F then Fulfilled else Pending) [0..<n] = ?P"
      using False by (intro map_cong) auto
    have S': "{..<n} \<subseteq> insert i ?F \<longleftrightarrow> {..<n} \<subseteq> ?F"
      using False by auto
    show ?thesis
      by (simp only: x err settle_snoc IH F' same P' S')
  qed
qed

lemma rebuild_callback_skip:
  assumes "\<not> (i < length (promises ph) \<and> promises ph ! i = Pending)"
  shows "rebuild_callback i err ph = ph"
proof -
  from assms have "(i < length (promises ph) \<and> promises ph ! i = Pending) = False"
    by blast
  then show ?thesis
    unfolding rebuild_callback_def by (simp only: if_False)
qed

lemma settle_all_done:
  assumes "\<forall>x \<in> set sched. snd x = None" and "\<forall>i < n. (i, None) \<in> set sched"
  shows "completion (settle sched \<lparr>promises = replicate n Pending,
                        completion = (if n = 0 then Some None else None)\<rparr>) = Some None"
proof -
  have "{..<n} \<subseteq> fst ` set sched"
  proof
    fix i assume "i \<in> {..<n}"
    with assms(2) have "(i, None) \<in> set sched" by simp
    then show "i \<in> fst ` set sched" by force
  qed
  then show ?thesis by (simp add: settle_quiet [OF assms(1)])
qed

lemma settle_first_failure:
  assumes quiet: "\<forall>x \<in> set pre. snd x = None"
    and fresh: "i \<notin> fst ` set pre" and i: "i < n"
  shows "completion (settle (pre @ (i, Some e) # post)
           \<lparr>promises = replicate n Pending,
            completion = (if n = 0 then Some None else None)\<rparr>) = Some (Some e)"
proof -
  let ?F = "fst ` set pre"
  let ?ph = "\<lparr>promises = map (\<lambda>j. if j \<in> ?F then Fulfilled else Pending) [0..<n],
              completion = (if {..<n} \<subseteq> ?F then Some None else None)\<rparr>"
  have notsub: "\<not> {..<n} \<subseteq> ?F" using fresh i by auto
  have "completion (rebuild_callback i (Some e) ?ph) = Some (Some e)"
    using fresh i notsub by (simp add: rebuild_callback_def)
  then have "completion (settle post (rebuild_callback i (Some e) ?ph)) = Some (Some e)"
    by (rule completion_settle_kept)
  then show ?thesis
    by (simp only: settle_append settle_Cons settle_quiet [OF quiet])
qed

lemma rebuild_callback_inv:
  assumes "\<forall>j < length (promises ph). promises ph ! j = Fulfilled \<longrightarrow> (j, None) \<in> set done"
    and "completion ph = Some None \<longrightarrow> all_fulfilled (promises ph)"
  shows "(\<forall>j < length (promises (rebuild_callback i err ph)).
            promises (rebuild_callback i err ph) ! j = Fulfilled \<longrightarrow> (j, None) \<in> set (done @ [(i, err)]))
       \<and> (completion (rebuild_callback i err ph) = Some None \<longrightarrow>
            all_fulfilled (promises (rebuild_callback i err ph)))"
proof (cases "i < length (promises ph) \<and> promises ph ! i = Pending")
  case False
  then have "rebuild_callback i err ph = ph"
    by (rule rebuild_callback_skip)
  with assms show ?thesis by simp
next
  case True
  then have notall: "\<not> all_fulfilled (promises ph)"
    by (auto simp: all_fulfilled_nth)
  with assms(2) have c: "completion ph \<noteq> Some None" by blast
  show ?thesis
  proof (cases err)
    case None
    have p: "promises (rebuild_callback i err ph) = (promises ph)[i := Fulfilled]"
      using True None by (simp add: rebuild_callback_def)
    have cpl: "completion (rebuild_callback i err ph) = Some None \<longrightarrow>
        all_fulfilled ((promises ph)[i := Fulfilled])"
      using True None c by (auto simp: rebuild_callback_def split: option.splits)
    have "\<forall>j < length (promises ph). (promises ph)[i := Fulfilled] ! j = Fulfilled \<longrightarrow>
        (j, None) \<in> set (done @ [(i, err)])"
    proof (intro allI impI)
      fix j assume j: "j < length (promises ph)" and f: "(promises ph)[i := Fulfilled] ! j = Fulfilled"
      show "(j, None) \<in> set (done @ [(i, err)])"
      proof (cases "j = i")
        case True
        with None show ?thesis by simp
      next
        case False
        with f j have "promises ph ! j = Fulfilled" by simp
        with assms(1) j show ?thesis by simp
      qed
    qed
    with cpl show ?thesis by (simp add: p)
  next
    case (Some e)
    have p: "promises (rebuild_callback i err ph) = (promises ph)[i := Rejected e]"
      using True Some by (simp add: rebuild_callback_def)
    have cpl: "completion (rebuild_callback i err ph) \<noteq> Some None"
      using True Some c by (auto simp: rebuild_callback_def split: option.splits)
    have "\<forall>j < length (promises ph). (promises ph)[i := Rejected e] ! j = Fulfilled \<longrightarrow>
        (j, None) \<in> set (done @ [(i, err)])"
    proof (intro allI impI)
      fix j assume j: "j < length (promises ph)" and f: "(promises ph)[i := Rejected e] ! j = Fulfilled"
      show "(j, None) \<in> set (done @ [(i, err)])"
      proof (cases "j = i")
        case True
        with f j show ?thesis by simp
      next
        case False
        with f j have "promises ph ! j = Fulfilled" by simp
        with assms(1) j show ?thesis by simp
      qed
    qed
    with cpl show ?thesis by (simp add: p)
  qed
qed

lemma settle_inv:
  assumes "\<forall>j < length (promises ph). promises ph ! j = Fulfilled \<longrightarrow> (j, None) \<in> set done"
    and "completion ph = Some None \<longrightarrow> all_fulfilled (promises ph)"
  shows "(\<forall>j < length (promises (settle sched ph)).
            promises (settle sched ph) ! j = Fulfilled \<longrightarrow> (j, None) \<in> set (done @ sched))
       \<and> (completion (settle sched ph) = Some None \<longrightarrow> all_fulfilled (promises (settle sched ph)))"
  using assms
proof (induction sched arbitrary: ph "done")
  case Nil
  then show ?case by (simp add: settle_Nil)
next
  case (Cons x sched)
  obtain i err where x: "x = (i, err)" by (cases x)
  from rebuild_callback_inv [OF Cons.prems, of i err]
  have a: "\<forall>j < length (promises (rebuild_callback i err ph)).
            promises (rebuild_callback i err ph) ! j = Fulfilled \<longrightarrow> (j, None) \<in> set (done @ [(i, err)])"
    and b: "completion (rebuild_callback i err ph) = Some None \<longrightarrow>
            all_fulfilled (promises (rebuild_callback i err ph))"
    by blast+
  from Cons.IH [OF a b] show ?case by (simp add: x settle_Cons)
qed

lemma length_promises_rebuild_callback:
  "length (promises (rebuild_callback i err ph)) = length (promises ph)"
  by (simp add: rebuild_callback_def split: option.splits)

lemma length_promises_settle: "length (promises (settle sched ph)) = length (promises ph)"
proof (induction sched arbitrary: ph)
  case Nil
  show ?case by (simp add: settle_Nil)
next
  case (Cons x sched)
  obtain i err where x: "x = (i, err)" by (cases x)
  show ?case by (simp add: x settle_Cons Cons.IH length_promises_rebuild_callback)
qed

lemma settle_only_after:
  assumes "completion (settle sched \<lparr>promises = replicate n Pending,
                        completion = (if n = 0 then Some None else None)\<rparr>) = Some None"
    and "i < n"
  shows "(i, None) \<in> set sched"
proof -
  let ?ph = "\<lparr>promises = replicate n Pending, completion = (if n = 0 then Some None else None)\<rparr>"
  have a: "\<forall>j < length (promises ?ph). promises ?ph ! j = Fulfilled \<longrightarrow> (j, None) \<in> set []"
    by simp
  have b: "completion ?ph = Some None \<longrightarrow> all_fulfilled (promises ?ph)"
    by (simp add: all_fulfilled_def)
  from settle_inv [OF a b, of sched] assms(1)
  have all: "all_fulfilled (promises (settle sched ?ph))"
    and each: "\<forall>j < length (promises (settle sched ?ph)).
            promises (settle sched ?ph) ! j = Fulfilled \<longrightarrow> (j, None) \<in> set sched"
    by simp_all
  have len: "length (promises (settle sched ?ph)) = n"
    by (simp add: length_promises_settle)
  from all assms(2) len have "promises (settle sched ?ph) ! i = Fulfilled"
    by (simp add: all_fulfilled_nth)
  with each assms(2) len show ?thesis by simp
qed

lemma fold_set_table_notin: "m \<notin> set ms \<Longrightarrow> fold (set_table src) ms h m = h m"
  by (induction ms arbitrary: h) (simp_all add: set_table_def)

lemma fold_set_table_in: "m \<in> set ms \<Longrightarrow> table (fold (set_table src) ms h m) = Some src"
proof (induction ms arbitrary: h rule: rev_induct)
  case Nil
  then show ?case by simp
next
  case (snoc x xs)
  then show ?case by (cases "m = x") (simp_all add: set_table_def)
qed

lemma fold_set_table_used:
  "used (fold (set_table src) ms h m) = used (h m) \<and>
   usedExports (fold (set_table src) ms h m) = usedExports (h m)"
  by (induction ms arbitrary: h) (simp_all add: set_table_def)

subsection \<open>The seal loop\<close>

lemma deliver_last:
  "phases v = ps @ [ph] \<Longrightarrow> deliver (length ps) sched v = v\<lparr>phases := ps @ [settle sched ph]\<rparr>"
  by (simp add: deliver_eq)

lemma resealed_additional_assets: "resealed (additional_assets v) = resealed v"
  by (simp add: additional_assets_eq)

lemma seal_plugins_additional_assets:
  "need_additional_seal_plugins (compilation (additional_assets v)) =
     need_additional_seal_plugins (compilation v)"
  by (simp add: additional_assets_eq)

lemma seal_pass_skip:
  assumes "resealed w"
  shows "seal_pass h compile sched w =
     (Stop BuildOk,
      additional_assets (w\<lparr>phases := phases w @ [\<lparr>promises = [], completion = Some None\<rparr>]\<rparr>))"
proof -
  let ?w1 = "w\<lparr>phases := phases w @ [\<lparr>promises = [], completion = Some None\<rparr>]\<rparr>"
  have o: "optimize_tree compile w = (None, ?w1)"
    using assms by (rule optimize_tree_resealed)
  have d: "deliver (length (phases w)) sched ?w1 = ?w1"
    by (simp add: deliver_last [of ?w1 "phases w" "\<lparr>promises = [], completion = Some None\<rparr>"]
        settle_no_promises)
  have c: "completion (phases ?w1 ! length (phases w)) = Some None"
    by simp
  have r1: "resealed ?w1" using assms by simp
  have n: "need_additional_seal v = (if need_additional_seal_plugins (compilation v) = 0
      then (None, v) else (Some False, v))" if "resealed v" for v
    using that by (simp add: need_additional_seal_eq)
  show ?thesis
  proof (cases "emit_first h")
    case True
    have "resealed (additional_assets ?w1)" using r1 by (simp add: resealed_additional_assets)
    from n [OF this] True show ?thesis
      by (simp add: seal_pass_def o d c Let_def)
  next
    case False
    from n [OF r1] False show ?thesis
      by (simp add: seal_pass_def o d c Let_def)
  qed
qed

lemma seal_skip:
  "resealed w \<Longrightarrow>
     seal h compile sched w =
       (BuildOk,
        additional_assets (w\<lparr>phases := phases w @ [\<lparr>promises = [], completion = Some None\<rparr>]\<rparr>))"
  by (subst seal.simps) (simp add: seal_pass_skip)

lemma seal_pass_first:
  fixes w :: world and sched :: "(nat \<times> error option) list" and compile :: compile_fn
  defines "ph \<equiv> settle sched
      \<lparr>promises = replicate (length (dataSegmentModules (glimmer w))) Pending,
       completion = (if length (dataSegmentModules (glimmer w)) = 0 then Some None else None)\<rparr>"
  defines "w2 \<equiv> (snd (optimize_tree compile w))\<lparr>phases := phases w @ [ph]\<rparr>"
  assumes fresh: "\<not> resealed w" and b: "this_bundle (glimmer w) = Some b"
    and ok: "compile b = Inr (bc, data)"
  shows "seal_pass h compile sched w =
     (case completion ph of
        None \<Rightarrow> (Stop BuildHung, w2)
      | Some (Some e) \<Rightarrow> (Stop (BuildFailed e), w2)
      | Some None \<Rightarrow>
          (Reseal,
           unseal h ((resetCompilation (if emit_first h then additional_assets w2 else w2))
                       \<lparr>resealed := True\<rparr>)))"
proof -
  let ?ph0 = "\<lparr>promises = replicate (length (dataSegmentModules (glimmer w))) Pending,
       completion = (if length (dataSegmentModules (glimmer w)) = 0 then Some None else None)\<rparr>"
  obtain w1 where o: "optimize_tree compile w = (None, w1)"
    and p1: "phases w1 = phases w @ [?ph0]"
    and r1: "\<not> resealed w1"
    and s1: "need_additional_seal_plugins (compilation w1) \<noteq> 0"
    using optimize_tree_compiles [where compile = compile, OF fresh b ok] fresh by simp
  have w1: "snd (optimize_tree compile w) = w1" by (simp add: o)
  have d: "deliver (length (phases w)) sched w1 = w2"
    by (simp add: deliver_last [OF p1] w2_def w1 ph_def)
  have c: "phases w2 ! length (phases w) = ph"
    by (simp add: w2_def)
  have r2: "\<not> resealed w2" and s2: "need_additional_seal_plugins (compilation w2) \<noteq> 0"
    using r1 s1 by (simp_all add: w2_def w1)
  have n: "need_additional_seal v = (Some True, (resetCompilation v)\<lparr>resealed := True\<rparr>)"
    if "\<not> resealed v" and "need_additional_seal_plugins (compilation v) \<noteq> 0" for v
    using that by (simp add: need_additional_seal_eq)
  have n_emitted: "need_additional_seal (additional_assets w2) =
      (Some True, (resetCompilation (additional_assets w2))\<lparr>resealed := True\<rparr>)"
    using r2 s2
    by (intro n) (simp_all add: resealed_additional_assets seal_plugins_additional_assets)
  have n_plain: "need_additional_seal w2 = (Some True, (resetCompilation w2)\<lparr>resealed := True\<rparr>)"
    using r2 s2 by (intro n) simp_all
  show ?thesis
    by (simp add: seal_pass_def o d c n_emitted n_plain Let_def split: option.splits)
qed

lemma resealed_unseal: "resealed (unseal h v) = resealed v"
  by (simp add: unseal_def)

lemma seal_first:
  fixes w :: world and sched :: "(nat \<times> error option) list" and compile :: compile_fn
    and h :: host
  defines "ph \<equiv> settle sched
      \<lparr>promises = replicate (length (dataSegmentModules (glimmer w))) Pending,
       completion = (if length (dataSegmentModules (glimmer w)) = 0 then Some None else None)\<rparr>"
  defines "w2 \<equiv> (snd (optimize_tree compile w))\<lparr>phases := phases w @ [ph]\<rparr>"
  defines "w5 \<equiv> unseal h ((resetCompilation (if emit_first h then additional_assets w2 else w2))
                       \<lparr>resealed := True\<rparr>)"
  assumes fresh: "\<not> resealed w" and b: "this_bundle (glimmer w) = Some b"
    and ok: "compile b = Inr (bc, data)"
  shows "seal h compile sched w =
     (case completion ph of
        None \<Rightarrow> (BuildHung, w2)
      | Some (Some e) \<Rightarrow> (BuildFailed e, w2)
      | Some None \<Rightarrow>
          (BuildOk,
           additional_assets (w5\<lparr>phases := phases w5 @ [\<lparr>promises = [], completion = Some None\<rparr>]\<rparr>)))"
proof -
  note pass = seal_pass_first [where compile = compile and h = h and sched = sched,
      OF fresh b ok, folded ph_def, folded w2_def, folded w5_def]
  have again: "seal h compile [] w5 =
      (BuildOk,
       additional_assets (w5\<lparr>phases := phases w5 @ [\<lparr>promises = [], completion = Some None\<rparr>]\<rparr>))"
    by (rule seal_skip) (simp add: w5_def resealed_unseal)
  show ?thesis
  proof (cases "completion ph")
    case None
    then show ?thesis by (subst seal.simps) (simp add: pass)
  next
    case (Some r)
    show ?thesis
    proof (cases r)
      case None
      with Some show ?thesis by (subst seal.simps) (simp add: pass again)
    next
      case (Some e)
      with \<open>completion ph = Some r\<close> show ?thesis by (subst seal.simps) (simp add: pass)
    qed
  qed
qed

lemma compile_calls_register: "compile_calls (register r v) = compile_calls v"
  by (cases r) (simp_all add: on_plugin_def split: sum.splits)

lemma compile_calls_fold_register: "compile_calls (fold register found v) = compile_calls v"
  by (induction found arbitrary: v) (simp_all add: compile_calls_register)

lemma resealed_fold_register: "resealed (fold register found v) = resealed v"
  by (induction found arbitrary: v) (simp_all add: resealed_register)

lemma this_compilation_world:
  assumes "this_compilation inputPath p c heap = Inr w0"
  obtains d where "getCompilerDelegateFor p inputPath = Inr d"
    and "w0 = \<lparr>glimmer = p\<lparr>dataSegmentModules := [],
                          this_bundle := Some (new_Bundle inputPath d (mainPath (options p)))\<rparr>,
            compilation = c\<lparr>optimize_tree_plugins := Suc (optimize_tree_plugins c)\<rparr>,
            mheap = heap, resealed = False, phases = [], compile_calls = 0\<rparr>"
proof (cases "getCompilerDelegateFor p inputPath")
  case (Inl e)
  from this_compilation_Inl [OF Inl, of c heap] assms show ?thesis by simp
next
  case (Inr d)
  from this_compilation_Inr [OF Inr, of c heap] assms that [OF Inr] show ?thesis by simp
qed

lemma seal_compile_calls:
  assumes fresh: "\<not> resealed w" and b: "this_bundle (glimmer w) = Some b"
  shows "compile_calls (snd (seal h compile sched w)) = Suc (compile_calls w)"
proof (cases "compile b")
  case (Inl e)
  from seal_throws [where compile = compile, OF fresh b Inl] show ?thesis by simp
next
  case (Inr r)
  obtain bc data where r: "r = (bc, data)" by (cases r)
  from Inr r have ok: "compile b = Inr (bc, data)" by simp
  note s = seal_first [where compile = compile and h = h and sched = sched, OF fresh b ok]
  note o = optimize_tree_compiles [where compile = compile, OF fresh b ok]
  show ?thesis
    by (simp add: s o additional_assets_eq resetCompilation_def unseal_def split: option.splits)
qed

lemma compile_calls_step_tripped:
  "resealed v \<Longrightarrow> compile_calls (step compile ev v) = compile_calls v"
  by (cases ev)
     (simp_all add: optimize_tree_resealed rebuild_done_def additional_assets_eq
        need_additional_seal_eq compile_calls_register)

lemma compile_calls_run_tripped:
  "resealed v \<Longrightarrow> compile_calls (run compile evs v) = compile_calls v"
proof (induction evs arbitrary: v)
  case Nil
  show ?case by simp
next
  case (Cons ev evs)
  have "resealed (step compile ev v)"
    unfolding resealed_step using Cons.prems by simp
  from Cons.IH [OF this] Cons.prems show ?case
    by (simp add: compile_calls_step_tripped)
qed

lemma fold_same_key:
  "(fold (\<lambda>bc a. a(k := Some bc)) bs a)(k := Some c) = a(k := Some c)"
  by (induction bs arbitrary: a) simp_all

lemma assets_additional_assets:
  "additional_assets_plugins (compilation v) = bs @ [bc] \<Longrightarrow>
     assets (compilation (additional_assets v)) =
       (assets (compilation v))(output_opt (options (glimmer v)) := Some bc)"
  by (simp add: additional_assets_eq fold_same_key)

lemma plugins_additional_assets:
  "additional_assets_plugins (compilation (additional_assets v)) =
     additional_assets_plugins (compilation v)"
  by (simp add: additional_assets_eq)

lemma glimmer_additional_assets: "glimmer (additional_assets v) = glimmer v"
  by (simp add: additional_assets_eq)

lemma seal_ok_world:
  fixes w :: world and sched :: "(nat \<times> error option) list" and compile :: compile_fn
    and h :: host
  assumes fresh: "\<not> resealed w" and b: "this_bundle (glimmer w) = Some b"
    and ok: "compile b = Inr (bc, data)"
    and built: "seal h compile sched w = (BuildOk, w')"
  shows "assets (compilation w') =
           (if unseal_clears_assets h then (\<lambda>_. None) else assets (compilation w))
             (output_opt (options (glimmer w)) := Some bc)
       \<and> additional_assets_plugins (compilation w') =
           additional_assets_plugins (compilation w) @ [bc]"
proof -
  let ?ph = "settle sched
      \<lparr>promises = replicate (length (dataSegmentModules (glimmer w))) Pending,
       completion = (if length (dataSegmentModules (glimmer w)) = 0 then Some None else None)\<rparr>"
  let ?w2 = "(snd (optimize_tree compile w))\<lparr>phases := phases w @ [?ph]\<rparr>"
  let ?w3 = "if emit_first h then additional_assets ?w2 else ?w2"
  let ?w5 = "unseal h ((resetCompilation ?w3)\<lparr>resealed := True\<rparr>)"
  let ?w6 = "?w5\<lparr>phases := phases ?w5 @ [\<lparr>promises = [], completion = Some None\<rparr>]\<rparr>"
  note s = seal_first [where compile = compile and h = h and sched = sched, OF fresh b ok]
  note o = optimize_tree_compiles [where compile = compile, OF fresh b ok]
  have completed: "completion ?ph = Some None"
  proof (cases "completion ?ph")
    case None
    from built have "(BuildHung, ?w2) = (BuildOk, w')"
      by (simp only: s None option.case)
    then show ?thesis by simp
  next
    case (Some r)
    show ?thesis
    proof (cases r)
      case None
      with Some show ?thesis by simp
    next
      case (Some e)
      from built have "(BuildFailed e, ?w2) = (BuildOk, w')"
        by (simp only: s \<open>completion ?ph = Some r\<close> Some option.case)
      then show ?thesis by simp
    qed
  qed
  have w': "w' = additional_assets ?w6"
    using built by (simp only: s completed option.case prod.inject simp_thms)
  have g2: "glimmer ?w2 = glimmer w" and p2: "additional_assets_plugins (compilation ?w2) =
      additional_assets_plugins (compilation w) @ [bc]"
    and a2: "assets (compilation ?w2) = assets (compilation w)"
    by (simp_all add: o)
  have g3: "glimmer ?w3 = glimmer w"
    and p3: "additional_assets_plugins (compilation ?w3) =
      additional_assets_plugins (compilation w) @ [bc]"
    using g2 p2 by (simp_all add: glimmer_additional_assets plugins_additional_assets)
  have a3: "assets (compilation ?w3) =
      (if emit_first h then (assets (compilation w))(output_opt (options (glimmer w)) := Some bc)
       else assets (compilation w))"
    using assets_additional_assets [OF p2] g2 a2 by simp
  have g6: "glimmer ?w6 = glimmer w"
    using g3 by (simp add: unseal_def resetCompilation_def)
  have p6: "additional_assets_plugins (compilation ?w6) =
      additional_assets_plugins (compilation w) @ [bc]"
    using p3 by (simp add: unseal_def resetCompilation_def)
  have a6: "assets (compilation ?w6) =
      (if unseal_clears_assets h then (\<lambda>_. None) else assets (compilation ?w3))"
    by (simp add: unseal_def resetCompilation_def)
  have "assets (compilation w') =
      (assets (compilation ?w6))(output_opt (options (glimmer w)) := Some bc)"
    unfolding w' using assets_additional_assets [OF p6] g6 by simp
  also have "\<dots> = (if unseal_clears_assets h then (\<lambda>_. None) else assets (compilation w))
             (output_opt (options (glimmer w)) := Some bc)"
    unfolding a6 a3 by simp
  finally have assets_final: "assets (compilation w') =
      (if unseal_clears_assets h then (\<lambda>_. None) else assets (compilation w))
             (output_opt (options (glimmer w)) := Some bc)" .
  have "additional_assets_plugins (compilation w') =
      additional_assets_plugins (compilation w) @ [bc]"
    unfolding w' using p6 by (simp add: plugins_additional_assets)
  with assets_final show ?thesis by simp
qed

lemma seal_all_done:
  fixes w :: world and sched :: "(nat \<times> error option) list" and compile :: compile_fn
    and h :: host
  assumes fresh: "\<not> resealed w" and b: "this_bundle (glimmer w) = Some b"
    and ok: "compile b = Inr (bc, data)"
    and quiet: "\<forall>x \<in> set sched. snd x = None"
    and all: "\<forall>i < length (dataSegmentModules (glimmer w)). (i, None) \<in> set sched"
  shows "fst (seal h compile sched w) = BuildOk"
proof -
  have "completion (settle sched
      \<lparr>promises = replicate (length (dataSegmentModules (glimmer w))) Pending,
       completion = (if length (dataSegmentModules (glimmer w)) = 0 then Some None else None)\<rparr>)
      = Some None"
    by (rule settle_all_done [OF quiet all])
  then show ?thesis
    by (simp only: seal_first [where compile = compile and h = h and sched = sched, OF fresh b ok]
        option.case fst_conv)
qed

lemma hooks_register:
  "rebuild_calls (compilation (register r v)) = rebuild_calls (compilation v) \<and>
   additional_assets_plugins (compilation (register r v)) =
     additional_assets_plugins (compilation v)"
  by (cases r) (simp_all add: on_plugin_def split: sum.splits)

lemma hooks_fold_register:
  "rebuild_calls (compilation (fold register found v)) = rebuild_calls (compilation v) \<and>
   additional_assets_plugins (compilation (fold register found v)) =
     additional_assets_plugins (compilation v)"
  by (induction found arbitrary: v) (simp_all add: hooks_register)

lemma seal_compile_result:
  fixes w :: world and sched :: "(nat \<times> error option) list" and compile :: compile_fn
    and h :: host
  assumes fresh: "\<not> resealed w" and b: "this_bundle (glimmer w) = Some b"
    and ok: "compile b = Inr (bc, data)"
  shows "additional_assets_plugins (compilation (snd (seal h compile sched w))) =
           additional_assets_plugins (compilation w) @ [bc]"
    and "need_additional_seal_plugins (compilation (snd (seal h compile sched w))) =
           Suc (need_additional_seal_plugins (compilation w))"
    and "rebuild_calls (compilation (snd (seal h compile sched w))) =
           rebuild_calls (compilation w) @ dataSegmentModules (glimmer w)"
    and "m \<in> set (dataSegmentModules (glimmer w)) \<Longrightarrow>
           table (mheap (snd (seal h compile sched w)) m) = Some data"
proof -
  note s = seal_first [where compile = compile and h = h and sched = sched, OF fresh b ok]
  note o = optimize_tree_compiles [where compile = compile, OF fresh b ok]
  show "additional_assets_plugins (compilation (snd (seal h compile sched w))) =
           additional_assets_plugins (compilation w) @ [bc]"
    by (simp add: s o additional_assets_eq resetCompilation_def unseal_def split: option.splits)
  show "need_additional_seal_plugins (compilation (snd (seal h compile sched w))) =
           Suc (need_additional_seal_plugins (compilation w))"
    by (simp add: s o additional_assets_eq resetCompilation_def unseal_def split: option.splits)
  show "rebuild_calls (compilation (snd (seal h compile sched w))) =
           rebuild_calls (compilation w) @ dataSegmentModules (glimmer w)"
    by (simp add: s o additional_assets_eq resetCompilation_def unseal_def split: option.splits)
  show "table (mheap (snd (seal h compile sched w)) m) = Some data"
    if "m \<in> set (dataSegmentModules (glimmer w))"
  proof -
    have t: "table (fold (set_table data) (dataSegmentModules (glimmer w)) (mheap w) m) = Some data"
      using that by (rule fold_set_table_in)
    have ne: "dataSegmentModules (glimmer w) \<noteq> []" using that by auto
    show ?thesis
      by (simp add: s o additional_assets_eq resetCompilation_def unseal_def fold_reset_module_table
          t ne split: option.splits)
  qed
qed

lemma glimmer_seal:
  fixes w :: world and sched :: "(nat \<times> error option) list" and compile :: compile_fn
    and h :: host
  assumes fresh: "\<not> resealed w" and b: "this_bundle (glimmer w) = Some b"
  shows "glimmer (snd (seal h compile sched w)) = glimmer w"
proof (cases "compile b")
  case (Inl e)
  from seal_throws [where compile = compile, OF fresh b Inl] show ?thesis by simp
next
  case (Inr r)
  obtain bc data where r: "r = (bc, data)" by (cases r)
  from Inr r have ok: "compile b = Inr (bc, data)" by simp
  note s = seal_first [where compile = compile and h = h and sched = sched, OF fresh b ok]
  note o = optimize_tree_compiles [where compile = compile, OF fresh b ok]
  show ?thesis
    by (simp add: s o additional_assets_eq resetCompilation_def unseal_def split: option.splits)
qed

subsection \<open>The store of the loader options\<close>

lemma loader_fields:
  "loaderOptions (snd (loader path g)) = loaderOptions g"
  "next_arr (snd (loader path g)) = next_arr g"
  "next_inst (snd (loader path g)) = next_inst g"
  "next_opt (snd (loader path g)) = Suc (next_opt g)"
  "arrays (snd (loader path g)) a =
     (if a = loaderOptions g then arrays g a @ [next_opt g] else arrays g a)"
  "compiler_of (snd (loader path g)) opt = (if opt = next_opt g then None else compiler_of g opt)"
  by (simp_all add: loader_def Let_def)

lemma loaders_fields:
  "loaderOptions (fold (\<lambda>path g. snd (loader path g)) paths g) = loaderOptions g"
  "next_arr (fold (\<lambda>path g. snd (loader path g)) paths g) = next_arr g"
  "next_inst (fold (\<lambda>path g. snd (loader path g)) paths g) = next_inst g"
  "next_opt (fold (\<lambda>path g. snd (loader path g)) paths g) = next_opt g + length paths"
  by (induction paths arbitrary: g) (simp_all add: loader_fields)

lemma loaders_arrays:
  "arrays (fold (\<lambda>path g. snd (loader path g)) paths g) a =
     (if a = loaderOptions g then arrays g a @ [next_opt g ..< next_opt g + length paths]
      else arrays g a)"
proof (induction paths arbitrary: g)
  case Nil
  show ?case by simp
next
  case (Cons path paths)
  show ?case
    by (simp add: Cons.IH loader_fields upt_conv_Cons del: upt_Suc)
qed

lemma loaders_compiler_of:
  "opt < next_opt g \<Longrightarrow>
     compiler_of (fold (\<lambda>path g. snd (loader path g)) paths g) opt = compiler_of g opt"
proof (induction paths arbitrary: g)
  case Nil
  show ?case by simp
next
  case (Cons path paths)
  have "opt < next_opt (snd (loader path g))"
    using Cons.prems by (simp add: loader_fields)
  from Cons.IH [OF this] Cons.prems show ?case
    by (simp add: loader_fields)
qed

lemma constructor_Inr:
  assumes "constructor opts g = Inr (p, g')"
  shows "p = \<lparr>this_id = next_inst g, options = opts, outputFile = output_opt opts,
               CompilerDelegate_field = CompilerDelegate opts,
               dataSegmentModules = [], this_bundle = None,
               this_loaderOptions = loaderOptions g\<rparr>"
    and "g' = g\<lparr>compiler_of := set_compiler (arrays g (loaderOptions g)) (next_inst g) (compiler_of g),
                arrays := (arrays g)(next_arr g := []),
                loaderOptions := next_arr g, next_arr := Suc (next_arr g),
                next_inst := Suc (next_inst g)\<rparr>"
  using assms by (simp_all add: constructor_def Let_def split: if_splits)

lemma store_invariant:
  "loaderOptions initial_gstate < next_arr initial_gstate \<and>
   (\<forall>opt \<in> set (arrays initial_gstate (loaderOptions initial_gstate)). opt < next_opt initial_gstate)"
  "loaderOptions g < next_arr g \<and> (\<forall>opt \<in> set (arrays g (loaderOptions g)). opt < next_opt g) \<Longrightarrow>
     loaderOptions (snd (loader path g)) < next_arr (snd (loader path g)) \<and>
     (\<forall>opt \<in> set (arrays (snd (loader path g)) (loaderOptions (snd (loader path g)))).
        opt < next_opt (snd (loader path g)))"
  "loaderOptions g < next_arr g \<and> (\<forall>opt \<in> set (arrays g (loaderOptions g)). opt < next_opt g) \<Longrightarrow>
     loaderOptions (snd (instanceLoader path q g)) < next_arr (snd (instanceLoader path q g)) \<and>
     (\<forall>opt \<in> set (arrays (snd (instanceLoader path q g)) (loaderOptions (snd (instanceLoader path q g)))).
        opt < next_opt (snd (instanceLoader path q g)))"
  "constructor opts g = Inr (p, g') \<Longrightarrow>
     loaderOptions g' < next_arr g' \<and> (\<forall>opt \<in> set (arrays g' (loaderOptions g')). opt < next_opt g')"
proof -
  show "loaderOptions initial_gstate < next_arr initial_gstate \<and>
   (\<forall>opt \<in> set (arrays initial_gstate (loaderOptions initial_gstate)). opt < next_opt initial_gstate)"
    by (simp add: initial_gstate_def)
next
  assume "loaderOptions g < next_arr g \<and> (\<forall>opt \<in> set (arrays g (loaderOptions g)). opt < next_opt g)"
  then show "loaderOptions (snd (loader path g)) < next_arr (snd (loader path g)) \<and>
     (\<forall>opt \<in> set (arrays (snd (loader path g)) (loaderOptions (snd (loader path g)))).
        opt < next_opt (snd (loader path g)))"
    by (auto simp: loader_fields less_Suc_eq)
next
  assume "loaderOptions g < next_arr g \<and> (\<forall>opt \<in> set (arrays g (loaderOptions g)). opt < next_opt g)"
  then show "loaderOptions (snd (instanceLoader path q g)) < next_arr (snd (instanceLoader path q g)) \<and>
     (\<forall>opt \<in> set (arrays (snd (instanceLoader path q g)) (loaderOptions (snd (instanceLoader path q g)))).
        opt < next_opt (snd (instanceLoader path q g)))"
    by (auto simp: instanceLoader_def Let_def less_Suc_eq)
next
  assume "constructor opts g = Inr (p, g')"
  from constructor_Inr(2) [OF this]
  show "loaderOptions g' < next_arr g' \<and> (\<forall>opt \<in> set (arrays g' (loaderOptions g')). opt < next_opt g')"
    by simp
qed

subsection \<open>The examples\<close>

lemma example_session_eq:
  "example_session =
     \<lparr>glimmer =
        \<lparr>this_id = 0, options = example_options (Some ''module-unification'') None,
         outputFile = ''templates.gbx'', CompilerDelegate_field = None,
         dataSegmentModules = [1, 2],
         this_bundle =
           Some \<lparr>b_inputPath = ''/app'',
                 b_delegate =
                   \<lparr>d_ctor = MUCompilerDelegate, projectPath = ''/app'',
                    dataSegment = ''table.js'', heapFile = ''templates.gbx'',
                    d_builtins = None, mainTemplateLocator = None\<rparr>,
                 b_mainPath = None, b_templates = [(''app'', ''<b>hi</b>'', ''scope'')],
                 b_asts = []\<rparr>,
         this_loaderOptions = 0\<rparr>,
      compilation =
        \<lparr>modules = [1, 2, 3], assets = (\<lambda>_. None), finish_calls = 0, rebuild_calls = [],
         optimize_tree_plugins = 1, additional_assets_plugins = [],
         need_additional_seal_plugins = 0\<rparr>,
      mheap = example_heap, resealed = False, phases = [], compile_calls = 0\<rparr>"
  by (simp add: example_session_def this_compilation_def getBundleFor_def
      getCompilerDelegateFor_def example_plugin_def example_options_def new_Bundle_def
      new_Compilation_def example_found_def on_plugin_def addComponent_def bundle_add_def
      addDataSegmentModule_def)

lemma example_session_bundle: "this_bundle (glimmer example_session) = Some example_bundle"
  by (simp add: example_session_eq example_bundle_def)

lemma example_session_fresh: "\<not> resealed example_session"
  by (simp add: example_session_eq)

lemma example_session_placeholders: "dataSegmentModules (glimmer example_session) = [1, 2]"
  by (simp add: example_session_eq)

lemma example_compile_ok: "example_compile example_bundle = Inr (''BYTES'', ''var data = 1;'')"
  by (simp add: example_compile_def)

lemma template_compile_ok: "template_compile example_bundle = Inr (''<b>hi</b>'', ''/app'')"
  by (simp add: template_compile_def example_bundle_def)

lemma example_run_build:
  "run_build h compile ''/app'' (example_plugin (Some ''module-unification'') None) example_heap
       example_found sched =
     Inr (seal h compile sched example_session)"
proof -
  have "\<exists>d. getCompilerDelegateFor (example_plugin (Some ''module-unification'') None) ''/app'' = Inr d"
    by (simp add: getCompilerDelegateFor_Inr_iff example_plugin_def example_options_def)
  then obtain d where
    "getCompilerDelegateFor (example_plugin (Some ''module-unification'') None) ''/app'' = Inr d" ..
  from this_compilation_Inr [OF this, of new_Compilation example_heap]
  show ?thesis
    by (simp add: run_build_def example_session_def)
qed

lemma example_gstate_fields:
  "loaderOptions example_gstate = 0"
  "arrays example_gstate 0 = [0, 1]"
  "next_arr example_gstate = 1"
  "next_opt example_gstate = 2"
  "next_inst example_gstate = 0"
  "compiler_of example_gstate opt = None"
  by (simp_all add: example_gstate_def loader_fields initial_gstate_def)

section \<open>The claims\<close>

text \<open>
  C1. In a session, which starts with the guard untripped, the 'need-additional-seal'
  handler answers true on its first call and false on every later one, whatever the host
  and the loaders do in between: the answers along any run of events are empty or one
  \<open>True\<close> followed by \<open>False\<close> only. The first call trips the guard, sets \<^verbatim>\<open>used\<close>
  and \<^verbatim>\<open>usedExports\<close> of every module of the compilation to \<^verbatim>\<open>null\<close> and calls
  \<^verbatim>\<open>compilation.finish()\<close> once; a later call changes nothing; and no event of the
  session untrips the guard.
\<close>

theorem need_additional_seal_once:
  assumes "\<not> resealed w" and "resealed v"
  shows "(seal_answers compile evs w = [] \<or>
          seal_answers compile evs w =
            True # replicate (length (seal_answers compile evs w) - 1) False)
       \<and> need_additional_seal_handler w = (True, (resetCompilation w)\<lparr>resealed := True\<rparr>)
       \<and> resealed (snd (need_additional_seal_handler w))
       \<and> (\<forall>m \<in> set (modules (compilation w)).
            used (mheap (snd (need_additional_seal_handler w)) m) = None \<and>
            usedExports (mheap (snd (need_additional_seal_handler w)) m) = None)
       \<and> finish_calls (compilation (snd (need_additional_seal_handler w))) =
            Suc (finish_calls (compilation w))
       \<and> need_additional_seal_handler v = (False, v)
       \<and> seal_answers compile evs v = replicate (length (seal_answers compile evs v)) False
       \<and> resealed (step compile ev v)
       \<and> resealed (run compile evs v)"
proof -
  have first: "need_additional_seal_handler w = (True, (resetCompilation w)\<lparr>resealed := True\<rparr>)"
    using assms(1) by (simp add: need_additional_seal_handler_def)
  have cleared: "\<forall>m \<in> set (modules (compilation w)).
      used (mheap (snd (need_additional_seal_handler w)) m) = None \<and>
      usedExports (mheap (snd (need_additional_seal_handler w)) m) = None"
    unfolding first by (simp add: resetCompilation_def fold_reset_module_in)
  have finished: "finish_calls (compilation (snd (need_additional_seal_handler w))) =
      Suc (finish_calls (compilation w))"
    unfolding first by (simp add: resetCompilation_def)
  have later: "need_additional_seal_handler v = (False, v)"
    using assms(2) by (simp add: need_additional_seal_handler_def)
  have kept: "resealed (step compile ev v)"
    unfolding resealed_step using assms(2) by simp
  show ?thesis
    using seal_answers_fresh [OF assms(1), of compile evs]
      seal_answers_tripped [OF assms(2), of compile evs]
      first cleared finished later kept resealed_run [OF assms(2), of compile evs]
    by simp
qed

theorem need_additional_seal_once_witness:
  "\<not> resealed example_session
   \<and> resealed (example_session\<lparr>resealed := True\<rparr>)
   \<and> seal_answers example_compile
       [OptimizeTree, NeedAdditionalSeal, OptimizeTree, NeedAdditionalSeal, NeedAdditionalSeal]
       example_session = [True, False, False]
   \<and> need_additional_seal_handler example_session =
       (True, (resetCompilation example_session)\<lparr>resealed := True\<rparr>)
   \<and> resealed (snd (need_additional_seal_handler example_session))
   \<and> modules (compilation example_session) = [1, 2, 3]
   \<and> used (mheap example_session 3) = Some True
   \<and> used (mheap (snd (need_additional_seal_handler example_session)) 3) = None
   \<and> usedExports (mheap (snd (need_additional_seal_handler example_session)) 3) = None
   \<and> finish_calls (compilation (snd (need_additional_seal_handler example_session))) =
        Suc (finish_calls (compilation example_session))
   \<and> need_additional_seal_handler (example_session\<lparr>resealed := True\<rparr>) =
       (False, example_session\<lparr>resealed := True\<rparr>)
   \<and> resealed (step example_compile OptimizeTree (example_session\<lparr>resealed := True\<rparr>))"
proof -
  have fresh: "\<not> resealed example_session"
    by (simp add: example_session_eq)
  have tripped: "resealed (example_session\<lparr>resealed := True\<rparr>)"
    by simp
  have answers: "seal_answers example_compile
       [OptimizeTree, NeedAdditionalSeal, OptimizeTree, NeedAdditionalSeal, NeedAdditionalSeal]
       example_session = [True, False, False]"
    by (simp add: example_session_eq optimize_tree_def example_compile_def
        rewriteDataSegmentModules_eq need_additional_seal_eq resetCompilation_def)
  have mods: "modules (compilation example_session) = [1, 2, 3]"
    and before: "used (mheap example_session 3) = Some True"
    by (simp_all add: example_session_eq example_heap_def)
  note once = need_additional_seal_once [OF fresh tripped, of example_compile
      "[OptimizeTree, NeedAdditionalSeal, OptimizeTree, NeedAdditionalSeal, NeedAdditionalSeal]"
      OptimizeTree]
  from once have "\<forall>m \<in> set (modules (compilation example_session)).
        used (mheap (snd (need_additional_seal_handler example_session)) m) = None \<and>
        usedExports (mheap (snd (need_additional_seal_handler example_session)) m) = None"
    by - (elim conjE, assumption)
  with mods
  have after: "used (mheap (snd (need_additional_seal_handler example_session)) 3) = None"
    and after': "usedExports (mheap (snd (need_additional_seal_handler example_session)) 3) = None"
    by simp_all
  from fresh tripped answers mods before after after' once
  show ?thesis
    by - (elim conjE, intro conjI; assumption)
qed

text \<open>
  C2. When the 'optimize-tree' handler runs with the guard tripped it calls the callback
  at once and does nothing else: no compile call, no placeholder rewritten, no rebuild
  request, no handler registered. With the guard untripped it calls
  \<^verbatim>\<open>this.bundle.compile()\<close>, on the bundle the session holds: when that throws, the handler
  throws the same exception and has done nothing else; when it returns \<^verbatim>\<open>{bytecode, data}\<close>,
  the handler writes \<^verbatim>\<open>data\<close> to every placeholder, requests the rebuild of each, and
  registers the 'additional-assets' handler with \<^verbatim>\<open>bytecode\<close> and the 'need-additional-seal'
  handler. Once the guard is tripped no event of the session leads to another compile
  call. In every build the host runs, whatever its outcome, compile has been called
  exactly once, on the bundle of the session, and the build uses what that call gave:
  its exception ends the build, or its bytecode is the one registered for the asset and
  its data is the content of every placeholder, each rebuilt once.
\<close>

theorem compile_once_per_session:
  "(resealed v \<longrightarrow>
      optimize_tree compile v =
        (None, v\<lparr>phases := phases v @ [\<lparr>promises = [], completion = Some None\<rparr>]\<rparr>))
   \<and> (\<not> resealed v \<and> this_bundle (glimmer v) \<noteq> None \<longrightarrow>
        compile_calls (snd (optimize_tree compile v)) = Suc (compile_calls v))
   \<and> (\<not> resealed v \<and> this_bundle (glimmer v) = Some b \<and> compile b = Inl e \<longrightarrow>
        optimize_tree compile v = (Some e, v\<lparr>compile_calls := Suc (compile_calls v)\<rparr>))
   \<and> (\<not> resealed v \<and> this_bundle (glimmer v) = Some b \<and> compile b = Inr (bc, data) \<longrightarrow>
        optimize_tree compile v =
          (None,
           v\<lparr>compile_calls := Suc (compile_calls v),
             mheap := fold (set_table data) (dataSegmentModules (glimmer v)) (mheap v),
             compilation :=
               (compilation v)
                 \<lparr>rebuild_calls := rebuild_calls (compilation v) @ dataSegmentModules (glimmer v),
                  additional_assets_plugins := additional_assets_plugins (compilation v) @ [bc],
                  need_additional_seal_plugins := Suc (need_additional_seal_plugins (compilation v))\<rparr>,
             phases := phases v @
               [\<lparr>promises = replicate (length (dataSegmentModules (glimmer v))) Pending,
                 completion = (if dataSegmentModules (glimmer v) = [] then Some None else None)\<rparr>]\<rparr>))
   \<and> (resealed v \<longrightarrow> compile_calls (run compile evs v) = compile_calls v)
   \<and> (\<not> resealed v \<and> this_bundle (glimmer v) = Some b \<longrightarrow>
        compile_calls (snd (seal h compile sched v)) = Suc (compile_calls v)
        \<and> glimmer (snd (seal h compile sched v)) = glimmer v
        \<and> (compile b = Inl e \<longrightarrow>
             seal h compile sched v = (BuildThrew e, v\<lparr>compile_calls := Suc (compile_calls v)\<rparr>))
        \<and> (compile b = Inr (bc, data) \<longrightarrow>
             additional_assets_plugins (compilation (snd (seal h compile sched v))) =
               additional_assets_plugins (compilation v) @ [bc]
             \<and> rebuild_calls (compilation (snd (seal h compile sched v))) =
                 rebuild_calls (compilation v) @ dataSegmentModules (glimmer v)
             \<and> (\<forall>m \<in> set (dataSegmentModules (glimmer v)).
                   table (mheap (snd (seal h compile sched v)) m) = Some data)))
   \<and> (run_build h compile inputPath p heap found sched = Inr (r, w') \<longrightarrow>
        compile_calls w' = 1
        \<and> (\<exists>b'. this_bundle (glimmer w') = Some b'
              \<and> (\<forall>e'. compile b' = Inl e' \<longrightarrow> r = BuildThrew e')
              \<and> (\<forall>bc' data'. compile b' = Inr (bc', data') \<longrightarrow>
                    additional_assets_plugins (compilation w') = [bc']
                    \<and> rebuild_calls (compilation w') = dataSegmentModules (glimmer w')
                    \<and> (\<forall>m \<in> set (dataSegmentModules (glimmer w')).
                          table (mheap w' m) = Some data'))))"
proof (intro conjI impI)
  assume "resealed v"
  then show "optimize_tree compile v =
        (None, v\<lparr>phases := phases v @ [\<lparr>promises = [], completion = Some None\<rparr>]\<rparr>)"
    by (rule optimize_tree_resealed)
next
  assume a: "\<not> resealed v \<and> this_bundle (glimmer v) \<noteq> None"
  show "compile_calls (snd (optimize_tree compile v)) = Suc (compile_calls v)"
    using a by (rule_tac optimize_tree_cases [where w = v and compile = compile]) simp_all
next
  assume "\<not> resealed v \<and> this_bundle (glimmer v) = Some b \<and> compile b = Inl e"
  then show "optimize_tree compile v = (Some e, v\<lparr>compile_calls := Suc (compile_calls v)\<rparr>)"
    by (intro optimize_tree_throws [where compile = compile and b = b]) simp_all
next
  assume "\<not> resealed v \<and> this_bundle (glimmer v) = Some b \<and> compile b = Inr (bc, data)"
  then have "\<not> resealed v" "this_bundle (glimmer v) = Some b" "compile b = Inr (bc, data)"
    by simp_all
  then show "optimize_tree compile v =
          (None,
           v\<lparr>compile_calls := Suc (compile_calls v),
             mheap := fold (set_table data) (dataSegmentModules (glimmer v)) (mheap v),
             compilation :=
               (compilation v)
                 \<lparr>rebuild_calls := rebuild_calls (compilation v) @ dataSegmentModules (glimmer v),
                  additional_assets_plugins := additional_assets_plugins (compilation v) @ [bc],
                  need_additional_seal_plugins := Suc (need_additional_seal_plugins (compilation v))\<rparr>,
             phases := phases v @
               [\<lparr>promises = replicate (length (dataSegmentModules (glimmer v))) Pending,
                 completion = (if dataSegmentModules (glimmer v) = [] then Some None else None)\<rparr>]\<rparr>)"
    by (rule optimize_tree_compiles [where compile = compile])
next
  assume "resealed v"
  then show "compile_calls (run compile evs v) = compile_calls v"
    by (rule compile_calls_run_tripped)
next
  assume "\<not> resealed v \<and> this_bundle (glimmer v) = Some b"
  then show "compile_calls (snd (seal h compile sched v)) = Suc (compile_calls v)"
    by (intro seal_compile_calls [where compile = compile and b = b]) simp_all
next
  assume "\<not> resealed v \<and> this_bundle (glimmer v) = Some b"
  then show "glimmer (snd (seal h compile sched v)) = glimmer v"
    by (intro glimmer_seal [where compile = compile and b = b]) simp_all
next
  assume "\<not> resealed v \<and> this_bundle (glimmer v) = Some b" and "compile b = Inl e"
  then show "seal h compile sched v = (BuildThrew e, v\<lparr>compile_calls := Suc (compile_calls v)\<rparr>)"
    by (intro seal_throws [where compile = compile and b = b]) simp_all
next
  assume "\<not> resealed v \<and> this_bundle (glimmer v) = Some b" and "compile b = Inr (bc, data)"
  then have f: "\<not> resealed v" "this_bundle (glimmer v) = Some b" "compile b = Inr (bc, data)"
    by simp_all
  show "additional_assets_plugins (compilation (snd (seal h compile sched v))) =
               additional_assets_plugins (compilation v) @ [bc]"
    by (rule seal_compile_result(1) [where compile = compile, OF f])
next
  assume "\<not> resealed v \<and> this_bundle (glimmer v) = Some b" and "compile b = Inr (bc, data)"
  then have f: "\<not> resealed v" "this_bundle (glimmer v) = Some b" "compile b = Inr (bc, data)"
    by simp_all
  show "rebuild_calls (compilation (snd (seal h compile sched v))) =
                 rebuild_calls (compilation v) @ dataSegmentModules (glimmer v)"
    by (rule seal_compile_result(3) [where compile = compile, OF f])
next
  assume "\<not> resealed v \<and> this_bundle (glimmer v) = Some b" and "compile b = Inr (bc, data)"
  then have f: "\<not> resealed v" "this_bundle (glimmer v) = Some b" "compile b = Inr (bc, data)"
    by simp_all
  show "\<forall>m \<in> set (dataSegmentModules (glimmer v)).
                   table (mheap (snd (seal h compile sched v)) m) = Some data"
    using seal_compile_result(4) [where compile = compile, OF f] by blast
next
  assume run: "run_build h compile inputPath p heap found sched = Inr (r, w')"
  then obtain w0 where start: "this_compilation inputPath p new_Compilation heap = Inr w0"
    and sealed: "seal h compile sched (fold register found w0) = (r, w')"
    by (cases "this_compilation inputPath p new_Compilation heap") (simp_all add: run_build_def)
  from start obtain d where w0: "w0 = \<lparr>glimmer = p\<lparr>dataSegmentModules := [],
                          this_bundle := Some (new_Bundle inputPath d (mainPath (options p)))\<rparr>,
            compilation = new_Compilation
              \<lparr>optimize_tree_plugins := Suc (optimize_tree_plugins new_Compilation)\<rparr>,
            mheap = heap, resealed = False, phases = [], compile_calls = 0\<rparr>"
    by (rule this_compilation_world)
  have fresh0: "\<not> resealed w0" and calls0: "compile_calls w0 = 0"
    and b0: "this_bundle (glimmer w0) = Some (new_Bundle inputPath d (mainPath (options p)))"
    and r0: "rebuild_calls (compilation w0) = []"
    and p0: "additional_assets_plugins (compilation w0) = []"
    by (simp_all add: w0 new_Compilation_def)
  let ?w = "fold register found w0"
  have fresh: "\<not> resealed ?w" using fresh0 by (simp add: resealed_fold_register)
  from bundle_fold_register [OF b0, of found]
  obtain b where b: "this_bundle (glimmer ?w) = Some b" by blast
  have rw: "rebuild_calls (compilation ?w) = []"
    and pw: "additional_assets_plugins (compilation ?w) = []"
    using r0 p0 by (simp_all add: hooks_fold_register)
  have w': "w' = snd (seal h compile sched ?w)" and r: "r = fst (seal h compile sched ?w)"
    using sealed by simp_all
  have g: "glimmer w' = glimmer ?w"
    unfolding w' by (rule glimmer_seal [where compile = compile, OF fresh b])
  from seal_compile_calls [OF fresh b, of h compile sched] sealed calls0
  show "compile_calls w' = 1"
    by (simp add: compile_calls_fold_register)
  have thrown: "r = BuildThrew e'" if "compile b = Inl e'" for e'
    unfolding r using seal_throws [where compile = compile, OF fresh b that] by simp
  have used: "additional_assets_plugins (compilation w') = [bc']
      \<and> rebuild_calls (compilation w') = dataSegmentModules (glimmer w')
      \<and> (\<forall>m \<in> set (dataSegmentModules (glimmer w')). table (mheap w' m) = Some data')"
    if ok: "compile b = Inr (bc', data')" for bc' data'
  proof (intro conjI ballI)
    show "additional_assets_plugins (compilation w') = [bc']"
      unfolding w' using seal_compile_result(1) [where compile = compile, OF fresh b ok] pw by simp
    show "rebuild_calls (compilation w') = dataSegmentModules (glimmer w')"
      unfolding g unfolding w'
      using seal_compile_result(3) [where compile = compile, OF fresh b ok] rw by simp
    fix m assume "m \<in> set (dataSegmentModules (glimmer w'))"
    then have "m \<in> set (dataSegmentModules (glimmer ?w))" by (simp only: g)
    then show "table (mheap w' m) = Some data'"
      unfolding w' by (rule seal_compile_result(4) [where compile = compile, OF fresh b ok])
  qed
  from b g thrown used
  show "\<exists>b'. this_bundle (glimmer w') = Some b'
              \<and> (\<forall>e'. compile b' = Inl e' \<longrightarrow> r = BuildThrew e')
              \<and> (\<forall>bc' data'. compile b' = Inr (bc', data') \<longrightarrow>
                    additional_assets_plugins (compilation w') = [bc']
                    \<and> rebuild_calls (compilation w') = dataSegmentModules (glimmer w')
                    \<and> (\<forall>m \<in> set (dataSegmentModules (glimmer w')).
                          table (mheap w' m) = Some data'))"
    by (intro exI [of _ b]) (simp only: simp_thms, blast)
qed

theorem compile_once_per_session_witness:
  "resealed (example_session\<lparr>resealed := True\<rparr>)
   \<and> optimize_tree template_compile (example_session\<lparr>resealed := True\<rparr>) =
       (None, example_session\<lparr>resealed := True,
          phases := phases (example_session\<lparr>resealed := True\<rparr>) @
            [\<lparr>promises = [], completion = Some None\<rparr>]\<rparr>)
   \<and> compile_calls (run template_compile [OptimizeTree, NeedAdditionalSeal, OptimizeTree]
        (example_session\<lparr>resealed := True\<rparr>)) =
       compile_calls (example_session\<lparr>resealed := True\<rparr>)
   \<and> \<not> resealed example_session
   \<and> this_bundle (glimmer example_session) = Some example_bundle
   \<and> template_compile example_bundle = Inr (''<b>hi</b>'', ''/app'')
   \<and> failing_compile example_bundle = Inl (Error ''boom'')
   \<and> compile_calls (snd (optimize_tree template_compile example_session)) =
       Suc (compile_calls example_session)
   \<and> optimize_tree template_compile example_session =
       (None,
        example_session\<lparr>compile_calls := Suc (compile_calls example_session),
          mheap := fold (set_table ''/app'') (dataSegmentModules (glimmer example_session))
                     (mheap example_session),
          compilation :=
            (compilation example_session)
              \<lparr>rebuild_calls := rebuild_calls (compilation example_session) @
                   dataSegmentModules (glimmer example_session),
               additional_assets_plugins :=
                 additional_assets_plugins (compilation example_session) @ [''<b>hi</b>''],
               need_additional_seal_plugins :=
                 Suc (need_additional_seal_plugins (compilation example_session))\<rparr>,
          phases := phases example_session @
            [\<lparr>promises = replicate (length (dataSegmentModules (glimmer example_session))) Pending,
              completion = (if dataSegmentModules (glimmer example_session) = [] then Some None
                            else None)\<rparr>]\<rparr>)
   \<and> optimize_tree failing_compile example_session =
       (Some (Error ''boom''),
        example_session\<lparr>compile_calls := Suc (compile_calls example_session)\<rparr>)
   \<and> seal example_host failing_compile [(1, None), (0, None)] example_session =
       (BuildThrew (Error ''boom''),
        example_session\<lparr>compile_calls := Suc (compile_calls example_session)\<rparr>)
   \<and> glimmer (snd (seal example_host template_compile [(1, None), (0, None)] example_session)) =
       glimmer example_session
   \<and> table (mheap (snd (seal example_host template_compile [(1, None), (0, None)] example_session)) 1) =
       Some ''/app''
   \<and> run_build example_host template_compile ''/app''
         (example_plugin (Some ''module-unification'') None) example_heap example_found
         [(1, None), (0, None)] =
       Inr (seal example_host template_compile [(1, None), (0, None)] example_session)
   \<and> compile_calls (snd (seal example_host template_compile [(1, None), (0, None)] example_session)) = 1
   \<and> additional_assets_plugins
        (compilation (snd (seal example_host template_compile [(1, None), (0, None)] example_session))) =
       [''<b>hi</b>'']
   \<and> rebuild_calls
        (compilation (snd (seal example_host template_compile [(1, None), (0, None)] example_session))) =
       [1, 2]"
proof -
  let ?s = "seal example_host template_compile [(1, None), (0, None)] example_session"
  have tripped: "resealed (example_session\<lparr>resealed := True\<rparr>)" by simp
  note fresh = example_session_fresh
  note has = example_session_bundle
  note ok = template_compile_ok
  have fails: "failing_compile example_bundle = Inl (Error ''boom'')"
    by (simp add: failing_compile_def)
  have has_bundle: "this_bundle (glimmer example_session) \<noteq> None"
    by (simp add: example_session_bundle)
  have placeholders: "dataSegmentModules (glimmer example_session) = [1, 2]"
    by (rule example_session_placeholders)
  have build: "run_build example_host template_compile ''/app''
         (example_plugin (Some ''module-unification'') None) example_heap example_found
         [(1, None), (0, None)] = Inr (fst ?s, snd ?s)"
    by (simp add: example_run_build)
  note skip = compile_once_per_session [where v = "example_session\<lparr>resealed := True\<rparr>"
      and compile = template_compile and evs = "[OptimizeTree, NeedAdditionalSeal, OptimizeTree]"]
  note first = compile_once_per_session [where v = example_session and compile = template_compile
      and b = example_bundle and bc = "''<b>hi</b>''" and data = "''/app''"
      and h = example_host and inputPath = "''/app''"
      and p = "example_plugin (Some ''module-unification'') None" and heap = example_heap
      and found = example_found and sched = "[(1, None), (0, None)]"
      and r = "fst ?s" and w' = "snd ?s"]
  note thrown = compile_once_per_session [where v = example_session and compile = failing_compile
      and b = example_bundle and e = "Error ''boom''" and h = example_host
      and sched = "[(1, None), (0, None)]"]
  from skip tripped have a: "optimize_tree template_compile (example_session\<lparr>resealed := True\<rparr>) =
       (None, example_session\<lparr>resealed := True,
          phases := phases (example_session\<lparr>resealed := True\<rparr>) @
            [\<lparr>promises = [], completion = Some None\<rparr>]\<rparr>)"
    by simp
  from skip tripped
  have a': "compile_calls (run template_compile [OptimizeTree, NeedAdditionalSeal, OptimizeTree]
        (example_session\<lparr>resealed := True\<rparr>)) =
       compile_calls (example_session\<lparr>resealed := True\<rparr>)"
    by blast
  from first fresh has_bundle
  have b: "compile_calls (snd (optimize_tree template_compile example_session)) =
       Suc (compile_calls example_session)"
    by blast
  from first fresh has ok
  have b': "optimize_tree template_compile example_session =
       (None,
        example_session\<lparr>compile_calls := Suc (compile_calls example_session),
          mheap := fold (set_table ''/app'') (dataSegmentModules (glimmer example_session))
                     (mheap example_session),
          compilation :=
            (compilation example_session)
              \<lparr>rebuild_calls := rebuild_calls (compilation example_session) @
                   dataSegmentModules (glimmer example_session),
               additional_assets_plugins :=
                 additional_assets_plugins (compilation example_session) @ [''<b>hi</b>''],
               need_additional_seal_plugins :=
                 Suc (need_additional_seal_plugins (compilation example_session))\<rparr>,
          phases := phases example_session @
            [\<lparr>promises = replicate (length (dataSegmentModules (glimmer example_session))) Pending,
              completion = (if dataSegmentModules (glimmer example_session) = [] then Some None
                            else None)\<rparr>]\<rparr>)"
    by blast
  from thrown fresh has fails
  have t: "optimize_tree failing_compile example_session =
       (Some (Error ''boom''),
        example_session\<lparr>compile_calls := Suc (compile_calls example_session)\<rparr>)"
    by blast
  from thrown fresh has fails
  have t': "seal example_host failing_compile [(1, None), (0, None)] example_session =
       (BuildThrew (Error ''boom''),
        example_session\<lparr>compile_calls := Suc (compile_calls example_session)\<rparr>)"
    by blast
  from first fresh has have g: "glimmer (snd ?s) = glimmer example_session"
    by blast
  from first fresh has ok
  have "\<forall>m \<in> set (dataSegmentModules (glimmer example_session)).
      table (mheap (snd ?s) m) = Some ''/app''"
    by blast
  with placeholders have tb: "table (mheap (snd ?s) 1) = Some ''/app''"
    by simp
  from first build have c: "compile_calls (snd ?s) = 1"
    by blast
  from first build obtain b' where b1: "this_bundle (glimmer (snd ?s)) = Some b'"
    and b2: "\<forall>bc' data'. template_compile b' = Inr (bc', data') \<longrightarrow>
        additional_assets_plugins (compilation (snd ?s)) = [bc']
        \<and> rebuild_calls (compilation (snd ?s)) = dataSegmentModules (glimmer (snd ?s))
        \<and> (\<forall>m \<in> set (dataSegmentModules (glimmer (snd ?s))). table (mheap (snd ?s) m) = Some data')"
    by blast
  from b1 g has have "b' = example_bundle" by simp
  with b2 ok have hooks: "additional_assets_plugins (compilation (snd ?s)) = [''<b>hi</b>'']"
    and "rebuild_calls (compilation (snd ?s)) = dataSegmentModules (glimmer (snd ?s))"
    by blast+
  with g placeholders have rebuilt: "rebuild_calls (compilation (snd ?s)) = [1, 2]"
    by simp
  from build have d: "run_build example_host template_compile ''/app''
         (example_plugin (Some ''module-unification'') None) example_heap example_found
         [(1, None), (0, None)] = Inr ?s"
    by simp
  from tripped a a' fresh has ok fails b b' t t' g tb d c hooks rebuilt show ?thesis
    by - (intro conjI; assumption)
qed

text \<open>
  C3. When the 'this-compilation' handler returns (it throws exactly when no delegate can
  be resolved), the session starts with an empty list of placeholders, a new bundle that
  has accumulated no template and no AST, the guard untripped, no phase run and no
  compile call, and the handler has added its 'optimize-tree' handler to the host's
  compilation and nothing else. The state the session starts with does not depend on the
  placeholders and the bundle the instance held before; and after the loaders'
  registrations the placeholders and the templates are exactly those registered since
  the session started.
\<close>

theorem this_compilation_resets:
  "(this_compilation inputPath p c heap = Inr w \<longrightarrow>
       dataSegmentModules (glimmer w) = []
     \<and> (\<exists>d. getCompilerDelegateFor p inputPath = Inr d \<and>
            this_bundle (glimmer w) = Some (new_Bundle inputPath d (mainPath (options p))))
     \<and> map_option b_templates (this_bundle (glimmer w)) = Some []
     \<and> map_option b_asts (this_bundle (glimmer w)) = Some []
     \<and> \<not> resealed w \<and> phases w = [] \<and> compile_calls w = 0
     \<and> compilation w = c\<lparr>optimize_tree_plugins := Suc (optimize_tree_plugins c)\<rparr>
     \<and> this_compilation inputPath (p\<lparr>dataSegmentModules := ms, this_bundle := ob\<rparr>) c heap = Inr w
     \<and> dataSegmentModules (glimmer (fold register found w)) =
         concat (map (\<lambda>r. case r of AddDataSegmentModule m \<Rightarrow> [m] | _ \<Rightarrow> []) found)
     \<and> map_option b_templates (this_bundle (glimmer (fold register found w))) =
         Some (concat (map (\<lambda>r. case r of AddComponent pa t s \<Rightarrow> [(pa, t, s)] | _ \<Rightarrow> []) found)))
   \<and> ((\<exists>w'. this_compilation inputPath p c heap = Inr w') \<longleftrightarrow>
        (CompilerDelegate (options p) \<noteq> None \<or> mode (options p) = Some ''module-unification''))"
proof (intro conjI impI)
  assume start: "this_compilation inputPath p c heap = Inr w"
  obtain d where d: "getCompilerDelegateFor p inputPath = Inr d"
    using start this_compilation_Inl [of p inputPath _ c heap]
    by (cases "getCompilerDelegateFor p inputPath") auto
  from start have w: "w = \<lparr>glimmer = p\<lparr>dataSegmentModules := [],
                          this_bundle := Some (new_Bundle inputPath d (mainPath (options p)))\<rparr>,
            compilation = c\<lparr>optimize_tree_plugins := Suc (optimize_tree_plugins c)\<rparr>,
            mheap = heap, resealed = False, phases = [], compile_calls = 0\<rparr>"
    by (simp add: this_compilation_Inr [OF d])
  show "dataSegmentModules (glimmer w) = []" by (simp add: w)
  show "\<exists>d. getCompilerDelegateFor p inputPath = Inr d \<and>
            this_bundle (glimmer w) = Some (new_Bundle inputPath d (mainPath (options p)))"
    using d by (simp add: w)
  show "map_option b_templates (this_bundle (glimmer w)) = Some []"
    by (simp add: w new_Bundle_def)
  show "map_option b_asts (this_bundle (glimmer w)) = Some []"
    by (simp add: w new_Bundle_def)
  show "\<not> resealed w" by (simp add: w)
  show "phases w = []" by (simp add: w)
  show "compile_calls w = 0" by (simp add: w)
  show "compilation w = c\<lparr>optimize_tree_plugins := Suc (optimize_tree_plugins c)\<rparr>"
    by (simp add: w)
  have "getCompilerDelegateFor (p\<lparr>dataSegmentModules := ms, this_bundle := ob\<rparr>) inputPath = Inr d"
    using d getCompilerDelegateFor_options [of "p\<lparr>dataSegmentModules := ms, this_bundle := ob\<rparr>" p inputPath]
    by simp
  from this_compilation_Inr [OF this, of c heap]
  show "this_compilation inputPath (p\<lparr>dataSegmentModules := ms, this_bundle := ob\<rparr>) c heap = Inr w"
    by (simp add: w)
  show "dataSegmentModules (glimmer (fold register found w)) =
         concat (map (\<lambda>r. case r of AddDataSegmentModule m \<Rightarrow> [m] | _ \<Rightarrow> []) found)"
    by (simp add: placeholders_fold_register w)
  show "map_option b_templates (this_bundle (glimmer (fold register found w))) =
         Some (concat (map (\<lambda>r. case r of AddComponent pa t s \<Rightarrow> [(pa, t, s)] | _ \<Rightarrow> []) found))"
    using bundle_fold_register [of w "new_Bundle inputPath d (mainPath (options p))" found]
    by (simp add: w new_Bundle_def)
next
  show "(\<exists>w'. this_compilation inputPath p c heap = Inr w') \<longleftrightarrow>
        (CompilerDelegate (options p) \<noteq> None \<or> mode (options p) = Some ''module-unification'')"
    unfolding getCompilerDelegateFor_Inr_iff [symmetric, of p inputPath]
    by (cases "getCompilerDelegateFor p inputPath")
       (simp_all add: this_compilation_Inl this_compilation_Inr)
qed

theorem this_compilation_resets_witness:
  "dataSegmentModules (glimmer example_session) = [1, 2]
   \<and> this_bundle (glimmer example_session) = Some example_bundle
   \<and> mode (options (glimmer example_session)) = Some ''module-unification''
   \<and> (\<exists>w. this_compilation ''/app'' (glimmer example_session) new_Compilation example_heap = Inr w
        \<and> dataSegmentModules (glimmer w) = []
        \<and> map_option b_templates (this_bundle (glimmer w)) = Some []
        \<and> \<not> resealed w
        \<and> dataSegmentModules (glimmer (fold register [AddDataSegmentModule 5] w)) = [5])"
proof -
  have before: "dataSegmentModules (glimmer example_session) = [1, 2]"
    and md: "mode (options (glimmer example_session)) = Some ''module-unification''"
    by (simp_all add: example_session_eq example_options_def)
  from md
    this_compilation_resets [where inputPath = "''/app''" and p = "glimmer example_session"
      and c = new_Compilation and heap = example_heap]
  obtain w where
    w: "this_compilation ''/app'' (glimmer example_session) new_Compilation example_heap = Inr w"
    by blast
  from w
    this_compilation_resets [where inputPath = "''/app''" and p = "glimmer example_session"
      and c = new_Compilation and heap = example_heap and w = w and ms = "[7]" and ob = None
      and found = "[AddDataSegmentModule 5]"]
  have "dataSegmentModules (glimmer w) = []
        \<and> map_option b_templates (this_bundle (glimmer w)) = Some []
        \<and> \<not> resealed w
        \<and> dataSegmentModules (glimmer (fold register [AddDataSegmentModule 5] w)) = [5]"
    by simp
  with w before md example_session_bundle show ?thesis
    by blast
qed

text \<open>
  C4. For every list of placeholders, with its duplicates, and every data-segment
  source, \<open>rewriteDataSegmentModules\<close> sets \<^verbatim>\<open>__table\<close> of every placeholder to that
  source and leaves every other module as it was, sends the host one rebuild request per
  entry of the list, in the order of the list, and its callback is called with no error
  only once every request has been answered without error (and is called so when all
  have been); with no placeholder it sends no request and completes at once.
\<close>

theorem rewrite_and_rebuild_all:
  assumes "rewriteDataSegmentModules ms src w = (ph, w')"
  shows "(\<forall>m \<in> set ms. table (mheap w' m) = Some src)
       \<and> (\<forall>m. m \<notin> set ms \<longrightarrow> mheap w' m = mheap w m)
       \<and> rebuild_calls (compilation w') = rebuild_calls (compilation w) @ ms
       \<and> promises ph = replicate (length ms) Pending
       \<and> completion ph = (if ms = [] then Some None else None)
       \<and> (completion (settle sched ph) = Some None \<longrightarrow>
            (\<forall>i < length ms. (i, None) \<in> set sched))
       \<and> ((\<forall>x \<in> set sched. snd x = None) \<and> (\<forall>i < length ms. (i, None) \<in> set sched) \<longrightarrow>
            completion (settle sched ph) = Some None)"
proof -
  from assms have ph: "ph = \<lparr>promises = replicate (length ms) Pending,
        completion = (if length ms = 0 then Some None else None)\<rparr>"
    and w': "w' = w\<lparr>mheap := fold (set_table src) ms (mheap w),
        compilation := (compilation w)\<lparr>rebuild_calls := rebuild_calls (compilation w) @ ms\<rparr>\<rparr>"
    by (simp_all add: rewriteDataSegmentModules_eq promise_all_then_pending)
  have tables: "\<forall>m \<in> set ms. table (mheap w' m) = Some src"
    by (simp add: w' fold_set_table_in)
  have others: "\<forall>m. m \<notin> set ms \<longrightarrow> mheap w' m = mheap w m"
    by (simp add: w' fold_set_table_notin)
  have requests: "rebuild_calls (compilation w') = rebuild_calls (compilation w) @ ms"
    by (simp add: w')
  have pending: "promises ph = replicate (length ms) Pending"
    and start: "completion ph = (if ms = [] then Some None else None)"
    by (simp_all add: ph)
  have only_after: "completion (settle sched ph) = Some None \<longrightarrow>
      (\<forall>i < length ms. (i, None) \<in> set sched)"
    unfolding ph using settle_only_after [of sched "length ms"] by blast
  have live: "(\<forall>x \<in> set sched. snd x = None) \<and> (\<forall>i < length ms. (i, None) \<in> set sched) \<longrightarrow>
      completion (settle sched ph) = Some None"
    unfolding ph using settle_all_done [of sched "length ms"] by blast
  from tables others requests pending start only_after live show ?thesis
    by blast
qed

theorem rewrite_and_rebuild_all_witness:
  "table (mheap example_session 2) = None
   \<and> table (mheap (snd (rewriteDataSegmentModules [1, 2] ''var data = 1;'' example_session)) 2) =
       Some ''var data = 1;''
   \<and> rebuild_calls (compilation (snd (rewriteDataSegmentModules [1, 2] ''var data = 1;'' example_session))) =
       rebuild_calls (compilation example_session) @ [1, 2]
   \<and> completion (fst (rewriteDataSegmentModules [1, 2] ''var data = 1;'' example_session)) = None
   \<and> completion (settle [(1, None)]
        (fst (rewriteDataSegmentModules [1, 2] ''var data = 1;'' example_session))) \<noteq> Some None
   \<and> completion (settle [(1, None), (0, None)]
        (fst (rewriteDataSegmentModules [1, 2] ''var data = 1;'' example_session))) = Some None
   \<and> completion (fst (rewriteDataSegmentModules [] ''var data = 1;'' example_session)) = Some None
   \<and> rebuild_calls (compilation (snd (rewriteDataSegmentModules [] ''var data = 1;'' example_session))) =
       rebuild_calls (compilation example_session) @ []"
proof -
  let ?r = "rewriteDataSegmentModules [1, 2] ''var data = 1;'' example_session"
  let ?e = "rewriteDataSegmentModules [] ''var data = 1;'' example_session"
  have r: "?r = (fst ?r, snd ?r)" and e: "?e = (fst ?e, snd ?e)"
    by simp_all
  note one = rewrite_and_rebuild_all [OF r, of "[(1, None)]"]
  note two = rewrite_and_rebuild_all [OF r, of "[(1, None), (0, None)]"]
  note none = rewrite_and_rebuild_all [OF e, of "[]"]
  have before: "table (mheap example_session 2) = None"
    by (simp add: example_session_eq example_heap_def)
  from one have after: "table (mheap (snd ?r) 2) = Some ''var data = 1;''"
    by simp
  from one have requests: "rebuild_calls (compilation (snd ?r)) =
      rebuild_calls (compilation example_session) @ [1, 2]"
    by blast
  from one have start: "completion (fst ?r) = None"
    by simp
  from one have early: "completion (settle [(1, None)] (fst ?r)) \<noteq> Some None"
    by auto
  from two have complete: "completion (settle [(1, None), (0, None)] (fst ?r)) = Some None"
    by (simp add: less_Suc_eq)
  from none have empty: "completion (fst ?e) = Some None"
    and norequest: "rebuild_calls (compilation (snd ?e)) = rebuild_calls (compilation example_session) @ []"
    by simp_all
  from before after requests start early complete empty norequest show ?thesis
    by blast
qed

text \<open>
  C5. On the first pass, when the host answers a rebuild request with the error \<open>e\<close>
  and every request answered before it was answered without error, the callback of the
  optimize phase is called with \<open>e\<close>, whatever the later answers are, and the build fails
  with \<open>e\<close>: the host neither polls 'need-additional-seal' nor fires
  'additional-assets', so the guard stays untripped, \<^verbatim>\<open>compilation.finish()\<close> is not
  called, no module's usage is reset, no second pass runs, and the asset map is the one
  the build started with.
\<close>

theorem rebuild_failure_fails_optimize_phase:
  assumes fresh: "\<not> resealed w" and b: "this_bundle (glimmer w) = Some b"
    and ok: "compile b = Inr (bc, data)"
    and sched: "sched = pre @ (i, Some e) # post"
    and quiet: "\<forall>x \<in> set pre. snd x = None"
    and first: "i \<notin> fst ` set pre"
    and i: "i < length (dataSegmentModules (glimmer w))"
  shows "fst (seal h compile sched w) = BuildFailed e
       \<and> completion (phases (snd (seal h compile sched w)) ! length (phases w)) = Some (Some e)
       \<and> length (phases (snd (seal h compile sched w))) = Suc (length (phases w))
       \<and> \<not> resealed (snd (seal h compile sched w))
       \<and> finish_calls (compilation (snd (seal h compile sched w))) = finish_calls (compilation w)
       \<and> assets (compilation (snd (seal h compile sched w))) = assets (compilation w)
       \<and> (\<forall>m. used (mheap (snd (seal h compile sched w)) m) = used (mheap w m) \<and>
                usedExports (mheap (snd (seal h compile sched w)) m) = usedExports (mheap w m))"
proof -
  let ?ph = "settle sched
      \<lparr>promises = replicate (length (dataSegmentModules (glimmer w))) Pending,
       completion = (if length (dataSegmentModules (glimmer w)) = 0 then Some None else None)\<rparr>"
  have failed: "completion ?ph = Some (Some e)"
    unfolding sched by (rule settle_first_failure [OF quiet first i])
  note o = optimize_tree_compiles [where compile = compile, OF fresh b ok]
  have s: "seal h compile sched w =
      (BuildFailed e, (snd (optimize_tree compile w))\<lparr>phases := phases w @ [?ph]\<rparr>)"
    by (simp only: seal_first [where compile = compile and h = h and sched = sched, OF fresh b ok]
        failed option.case)
  show ?thesis
    unfolding s using fresh failed by (simp add: o fold_set_table_used)
qed

theorem rebuild_failure_fails_optimize_phase_witness:
  "\<not> resealed example_session
   \<and> this_bundle (glimmer example_session) = Some example_bundle
   \<and> example_compile example_bundle = Inr (''BYTES'', ''var data = 1;'')
   \<and> dataSegmentModules (glimmer example_session) = [1, 2]
   \<and> fst (seal example_host example_compile [(0, None), (1, Some (Error ''E''))] example_session) =
       BuildFailed (Error ''E'')
   \<and> \<not> resealed (snd (seal example_host example_compile [(0, None), (1, Some (Error ''E''))]
         example_session))
   \<and> finish_calls (compilation (snd (seal example_host example_compile
         [(0, None), (1, Some (Error ''E''))] example_session))) =
       finish_calls (compilation example_session)
   \<and> assets (compilation (snd (seal example_host example_compile
         [(0, None), (1, Some (Error ''E''))] example_session))) =
       assets (compilation example_session)
   \<and> assets (compilation example_session) ''templates.gbx'' = None"
proof -
  have sched: "[(0, None), (1, Some (Error ''E''))] = [(0, None)] @ (1, Some (Error ''E'')) # []"
    by simp
  have quiet: "\<forall>x \<in> set [(0::nat, None :: error option)]. snd x = None"
    by simp
  have first: "(1::nat) \<notin> fst ` set [(0::nat, None :: error option)]"
    by simp
  have i: "1 < length (dataSegmentModules (glimmer example_session))"
    by (simp add: example_session_placeholders)
  have none: "assets (compilation example_session) ''templates.gbx'' = None"
    by (simp add: example_session_eq)
  note t = rebuild_failure_fails_optimize_phase [where compile = example_compile
      and h = example_host, OF example_session_fresh example_session_bundle example_compile_ok
      sched quiet first i]
  from t example_session_fresh example_session_bundle example_compile_ok
    example_session_placeholders none
  show ?thesis
    by blast
qed

text \<open>
  C6, as amended. The constructor throws when both a truthy \<^verbatim>\<open>mode\<close> and a
  \<^verbatim>\<open>CompilerDelegate\<close> are supplied. An unrecognized or absent mode with no
  \<^verbatim>\<open>CompilerDelegate\<close> is raised neither by the constructor nor by \<^verbatim>\<open>apply\<close>, which
  both succeed: the error "Unrecognized compiler mode ..." is thrown by the
  'this-compilation' handler, at the start of every build session, before a bundle
  exists, so the build stops before the optimize phase and nothing is compiled.
\<close>

theorem configuration_errors:
  "(truthy (mode opts) \<and> CompilerDelegate opts \<noteq> None \<longrightarrow>
      constructor opts g =
        Inl (Error ''You can provide a mode or a compiler delegate, but not both.''))
   \<and> (CompilerDelegate opts = None \<and> mode opts \<noteq> Some ''module-unification'' \<longrightarrow>
        (\<exists>q g'. constructor opts g = Inr (q, g') \<and> options q = opts))
   \<and> (CompilerDelegate (options p) = None \<and> mode (options p) \<noteq> Some ''module-unification'' \<longrightarrow>
        (\<exists>ip. apply_plugin p (Some path) = Inr ip)
      \<and> this_compilation inputPath p c heap =
          Inl (Error (''Unrecognized compiler mode '' @ interpolate (mode (options p))),
               p\<lparr>dataSegmentModules := []\<rparr>)
      \<and> run_build h compile inputPath p heap found sched =
          Inl (Error (''Unrecognized compiler mode '' @ interpolate (mode (options p))),
               p\<lparr>dataSegmentModules := []\<rparr>))"
proof (intro conjI impI)
  assume "truthy (mode opts) \<and> CompilerDelegate opts \<noteq> None"
  then show "constructor opts g =
      Inl (Error ''You can provide a mode or a compiler delegate, but not both.'')"
    by (simp add: constructor_def)
next
  assume "CompilerDelegate opts = None \<and> mode opts \<noteq> Some ''module-unification''"
  then show "\<exists>q g'. constructor opts g = Inr (q, g') \<and> options q = opts"
    by (simp add: constructor_def Let_def)
next
  assume a: "CompilerDelegate (options p) = None \<and> mode (options p) \<noteq> Some ''module-unification''"
  show "\<exists>ip. apply_plugin p (Some path) = Inr ip"
    by (rule apply_plugin_host_context)
  from a have e: "getCompilerDelegateFor p inputPath =
       Inl (Error (''Unrecognized compiler mode '' @ interpolate (mode (options p))))"
    by (simp add: getCompilerDelegateFor_unrecognized)
  have t: "this_compilation inputPath p c' heap =
          Inl (Error (''Unrecognized compiler mode '' @ interpolate (mode (options p))),
               p\<lparr>dataSegmentModules := []\<rparr>)" for c'
    by (rule this_compilation_Inl [OF e])
  show "this_compilation inputPath p c heap =
          Inl (Error (''Unrecognized compiler mode '' @ interpolate (mode (options p))),
               p\<lparr>dataSegmentModules := []\<rparr>)"
    by (rule t)
  show "run_build h compile inputPath p heap found sched =
          Inl (Error (''Unrecognized compiler mode '' @ interpolate (mode (options p))),
               p\<lparr>dataSegmentModules := []\<rparr>)"
    by (simp add: run_build_def t)
qed

theorem configuration_errors_witness:
  "truthy (mode (example_options (Some ''basic'') (Some MUCompilerDelegate)))
   \<and> constructor (example_options (Some ''basic'') (Some MUCompilerDelegate)) initial_gstate =
       Inl (Error ''You can provide a mode or a compiler delegate, but not both.'')
   \<and> mode (example_options (Some ''basic'') None) \<noteq> Some ''module-unification''
   \<and> (\<exists>q g'. constructor (example_options (Some ''basic'') None) initial_gstate = Inr (q, g')
         \<and> options q = example_options (Some ''basic'') None)
   \<and> (\<exists>ip. apply_plugin (example_plugin (Some ''basic'') None) (Some ''/host'') = Inr ip)
   \<and> this_compilation ''/app'' (example_plugin (Some ''basic'') None) new_Compilation example_heap =
       Inl (Error ''Unrecognized compiler mode basic'', example_plugin (Some ''basic'') None)
   \<and> run_build example_host example_compile ''/app'' (example_plugin (Some ''basic'') None)
         example_heap example_found [(0, None), (1, None)] =
       Inl (Error ''Unrecognized compiler mode basic'', example_plugin (Some ''basic'') None)"
  using configuration_errors [where opts = "example_options (Some ''basic'') (Some MUCompilerDelegate)"
      and g = initial_gstate and p = "example_plugin (Some ''basic'') None" and path = "''/host''"
      and inputPath = "''/app''" and c = new_Compilation and heap = example_heap
      and h = example_host and compile = example_compile and found = example_found
      and sched = "[(0, None), (1, None)]"]
    configuration_errors [where opts = "example_options (Some ''basic'') None"
      and g = initial_gstate and p = "example_plugin (Some ''basic'') None"]
  by (simp add: example_options_def example_plugin_def truthy_def interpolate_def)

text \<open>
  The claim as it stands places both errors at setup. With the options
  \<^verbatim>\<open>{output: 'templates.gbx', mode: 'basic'}\<close> the constructor returns an instance and
  \<^verbatim>\<open>apply\<close> returns; the error is thrown when the host starts a session.
\<close>

theorem configuration_error_after_setup_counterexample:
  "(\<exists>g'. constructor (example_options (Some ''basic'') None) initial_gstate =
          Inr (example_plugin (Some ''basic'') None, g'))
   \<and> apply_plugin (example_plugin (Some ''basic'') None) None = Inr ''/app''
   \<and> this_compilation ''/app'' (example_plugin (Some ''basic'') None) new_Compilation example_heap =
       Inl (Error ''Unrecognized compiler mode basic'', example_plugin (Some ''basic'') None)"
  by (simp add: constructor_def initial_gstate_def example_options_def example_plugin_def
      truthy_def apply_plugin_def js_or_def expect_def this_compilation_def getBundleFor_def
      getCompilerDelegateFor_def interpolate_def)

text \<open>
  C7. The claim does not hold of the code. \<^verbatim>\<open>this.bundle.compile()\<close> is called at line 136
  outside any \<^verbatim>\<open>try\<close> and before \<^verbatim>\<open>cb\<close> is used, so what it throws leaves the
  'optimize-tree' handler: the completion callback of the phase never receives the
  error, whereas the rebuild errors of the same handler do reach it (line 139). In the
  example session with a compile step that throws \<^verbatim>\<open>Error('boom')\<close>, the handler throws the
  error, no phase of rebuild requests exists whose completion could call the callback,
  no placeholder is rewritten, no rebuild is requested, no handler is registered and the
  guard stays untripped; the build ends with the exception instead of a failure reported
  by the phase.
\<close>

theorem compile_failure_not_reported:
  "failing_compile example_bundle = Inl (Error ''boom'')
   \<and> optimize_tree failing_compile example_session =
       (Some (Error ''boom''),
        example_session\<lparr>compile_calls := Suc (compile_calls example_session)\<rparr>)
   \<and> phases (snd (optimize_tree failing_compile example_session)) = []
   \<and> seal example_host failing_compile [(0, None), (1, None)] example_session =
       (BuildThrew (Error ''boom''),
        example_session\<lparr>compile_calls := Suc (compile_calls example_session)\<rparr>)"
proof -
  have fails: "failing_compile example_bundle = Inl (Error ''boom'')"
    by (simp add: failing_compile_def)
  have thrown: "optimize_tree failing_compile example_session =
      (Some (Error ''boom''), example_session\<lparr>compile_calls := Suc (compile_calls example_session)\<rparr>)"
    by (rule optimize_tree_throws [where compile = failing_compile, OF example_session_fresh example_session_bundle fails])
  have build: "seal example_host failing_compile [(0, None), (1, None)] example_session =
      (BuildThrew (Error ''boom''),
       example_session\<lparr>compile_calls := Suc (compile_calls example_session)\<rparr>)"
    by (rule seal_throws [where compile = failing_compile, OF example_session_fresh example_session_bundle fails])
  have none: "phases example_session = []"
    by (simp add: example_session_eq)
  have quiet: "phases (snd (optimize_tree failing_compile example_session)) = []"
    unfolding thrown by (simp add: none)
  from fails thrown quiet build show ?thesis
    by - (intro conjI; assumption)
qed

text \<open>
  C8. The 'additional-assets' handler writes its bytecode under the configured
  \<^verbatim>\<open>output\<close> name and touches no other entry. The 'optimize-tree' handler registers it
  once on the pass that compiles and not on the pass that finds the guard tripped. So
  in every build that succeeds, the asset map the host ends with is the one it would
  have without the plugin, with one entry more: the \<^verbatim>\<open>bytecode\<close> that compile returned for
  the session, under the \<^verbatim>\<open>output\<close> name; and a build succeeds whenever every rebuild
  request is answered without error.
\<close>

theorem bytecode_asset_emitted:
  assumes fresh: "\<not> resealed w" and b: "this_bundle (glimmer w) = Some b"
    and ok: "compile b = Inr (bc, data)"
  shows "(seal h compile sched w = (BuildOk, w') \<longrightarrow>
            assets (compilation w') =
              (if unseal_clears_assets h then (\<lambda>_. None) else assets (compilation w))
                (output_opt (options (glimmer w)) := Some bc)
          \<and> additional_assets_plugins (compilation w') =
              additional_assets_plugins (compilation w) @ [bc])
       \<and> ((\<forall>x \<in> set sched. snd x = None) \<and>
           (\<forall>i < length (dataSegmentModules (glimmer w)). (i, None) \<in> set sched) \<longrightarrow>
            fst (seal h compile sched w) = BuildOk)
       \<and> additional_assets_plugins (compilation (snd (optimize_tree compile w))) =
            additional_assets_plugins (compilation w) @ [bc]
       \<and> (resealed v \<longrightarrow>
            additional_assets_plugins (compilation (snd (optimize_tree compile v))) =
              additional_assets_plugins (compilation v))
       \<and> assets (compilation (additional_assets_handler x v)) =
            (assets (compilation v))(output_opt (options (glimmer v)) := Some x)"
proof (intro conjI impI)
  assume built: "seal h compile sched w = (BuildOk, w')"
  from seal_ok_world [where compile = compile, OF fresh b ok built]
  show "assets (compilation w') =
              (if unseal_clears_assets h then (\<lambda>_. None) else assets (compilation w))
                (output_opt (options (glimmer w)) := Some bc)"
    and "additional_assets_plugins (compilation w') =
              additional_assets_plugins (compilation w) @ [bc]"
    by simp_all
next
  assume "(\<forall>x \<in> set sched. snd x = None) \<and>
           (\<forall>i < length (dataSegmentModules (glimmer w)). (i, None) \<in> set sched)"
  then show "fst (seal h compile sched w) = BuildOk"
    using seal_all_done [where compile = compile and h = h and sched = sched, OF fresh b ok]
    by blast
next
  show "additional_assets_plugins (compilation (snd (optimize_tree compile w))) =
            additional_assets_plugins (compilation w) @ [bc]"
    by (simp add: optimize_tree_compiles [where compile = compile, OF fresh b ok])
next
  assume "resealed v"
  then show "additional_assets_plugins (compilation (snd (optimize_tree compile v))) =
              additional_assets_plugins (compilation v)"
    by (simp add: optimize_tree_resealed)
next
  show "assets (compilation (additional_assets_handler x v)) =
            (assets (compilation v))(output_opt (options (glimmer v)) := Some x)"
    by (simp add: additional_assets_handler_def)
qed

theorem bytecode_asset_emitted_witness:
  "\<not> resealed example_session
   \<and> this_bundle (glimmer example_session) = Some example_bundle
   \<and> example_compile example_bundle = Inr (''BYTES'', ''var data = 1;'')
   \<and> seal example_host example_compile [(1, None), (0, None)] example_session =
       (BuildOk, snd (seal example_host example_compile [(1, None), (0, None)] example_session))
   \<and> assets (compilation (snd (seal example_host example_compile [(1, None), (0, None)]
         example_session))) =
       (\<lambda>_. None)(''templates.gbx'' := Some ''BYTES'')
   \<and> additional_assets_plugins (compilation (snd (seal example_host example_compile
         [(1, None), (0, None)] example_session))) = [''BYTES'']
   \<and> resealed (example_session\<lparr>resealed := True\<rparr>)
   \<and> additional_assets_plugins (compilation (snd (optimize_tree example_compile
         (example_session\<lparr>resealed := True\<rparr>)))) =
       additional_assets_plugins (compilation (example_session\<lparr>resealed := True\<rparr>))"
proof -
  let ?s = "seal example_host example_compile [(1, None), (0, None)] example_session"
  note t = bytecode_asset_emitted [where compile = example_compile and h = example_host
      and sched = "[(1, None), (0, None)]" and w' = "snd ?s"
      and v = "example_session\<lparr>resealed := True\<rparr>",
      OF example_session_fresh example_session_bundle example_compile_ok]
  have quiet: "\<forall>x \<in> set [(1::nat, None :: error option), (0, None)]. snd x = None"
    by simp
  have all: "\<forall>i < length (dataSegmentModules (glimmer example_session)).
      (i, None) \<in> set [(1::nat, None :: error option), (0, None)]"
    by (simp add: example_session_placeholders less_Suc_eq)
  from t quiet all have "fst ?s = BuildOk" by blast
  then have built: "?s = (BuildOk, snd ?s)"
    by (metis prod.collapse)
  have out: "output_opt (options (glimmer example_session)) = ''templates.gbx''"
    and clears: "unseal_clears_assets example_host"
    and none: "additional_assets_plugins (compilation example_session) = []"
    by (simp_all add: example_session_eq example_options_def example_host_def)
  from t built have "assets (compilation (snd ?s)) =
      (if unseal_clears_assets example_host then (\<lambda>_. None)
       else assets (compilation example_session))
        (output_opt (options (glimmer example_session)) := Some ''BYTES'')"
    and "additional_assets_plugins (compilation (snd ?s)) =
      additional_assets_plugins (compilation example_session) @ [''BYTES'']"
    by blast+
  then have a: "assets (compilation (snd ?s)) = (\<lambda>_. None)(''templates.gbx'' := Some ''BYTES'')"
    and p: "additional_assets_plugins (compilation (snd ?s)) = [''BYTES'']"
    by (simp_all add: out clears none)
  have tripped: "resealed (example_session\<lparr>resealed := True\<rparr>)" by simp
  with t have q: "additional_assets_plugins (compilation (snd (optimize_tree example_compile
         (example_session\<lparr>resealed := True\<rparr>)))) =
       additional_assets_plugins (compilation (example_session\<lparr>resealed := True\<rparr>))"
    by blast
  from example_session_fresh example_session_bundle example_compile_ok built a p tripped q
  show ?thesis by blast
qed

text \<open>
  C9. When no \<^verbatim>\<open>CompilerDelegate\<close> is supplied, every mode other than
  'module-unification' makes \<open>getCompilerDelegateFor\<close> throw the error "Unrecognized
  compiler mode ..." (the mode 'basic' and an absent mode among them, the latter printed as
  "undefined"), and only 'module-unification' resolves to the built-in delegate.
\<close>

theorem unrecognized_mode_throws:
  assumes "CompilerDelegate (options p) = None"
  shows "(mode (options p) \<noteq> Some ''module-unification'' \<longrightarrow>
            getCompilerDelegateFor p inputPath =
              Inl (Error (''Unrecognized compiler mode '' @ interpolate (mode (options p)))))
       \<and> (mode (options p) = Some ''basic'' \<longrightarrow>
            getCompilerDelegateFor p inputPath = Inl (Error ''Unrecognized compiler mode basic''))
       \<and> (mode (options p) = None \<longrightarrow>
            getCompilerDelegateFor p inputPath = Inl (Error ''Unrecognized compiler mode undefined''))
       \<and> (mode (options p) = Some ''module-unification'' \<longrightarrow>
            (\<exists>d. getCompilerDelegateFor p inputPath = Inr d \<and> d_ctor d = MUCompilerDelegate))"
  using assms by (simp add: getCompilerDelegateFor_def interpolate_def)

theorem unrecognized_mode_throws_witness:
  "getCompilerDelegateFor (example_plugin (Some ''basic'') None) ''/app'' =
     Inl (Error ''Unrecognized compiler mode basic'')
   \<and> getCompilerDelegateFor (example_plugin None None) ''/app'' =
     Inl (Error ''Unrecognized compiler mode undefined'')
   \<and> getCompilerDelegateFor (example_plugin (Some ''unification'') None) ''/app'' =
     Inl (Error ''Unrecognized compiler mode unification'')
   \<and> (\<exists>d. getCompilerDelegateFor (example_plugin (Some ''module-unification'') None) ''/app'' = Inr d
          \<and> d_ctor d = MUCompilerDelegate)"
  using unrecognized_mode_throws [of "example_plugin (Some ''basic'') None" "''/app''"]
    unrecognized_mode_throws [of "example_plugin None None" "''/app''"]
    unrecognized_mode_throws [of "example_plugin (Some ''unification'') None" "''/app''"]
    unrecognized_mode_throws [of "example_plugin (Some ''module-unification'') None" "''/app''"]
  by (simp add: example_plugin_def example_options_def interpolate_def)

text \<open>
  C10. When the constructor returns, every options object of the shared list has its
  \<^verbatim>\<open>compiler\<close> property set to the new instance, the instance holds the very array the
  variable \<^verbatim>\<open>loaderOptions\<close> referred to, with its contents, and the variable refers to
  a new, empty array. So the next instance constructed, after any number of calls of the
  static loaders, is another object with another array, which holds the options objects
  created since and none of the earlier ones; those still point to the first instance.
  The two hypotheses on the store hold in the initial store and are kept by
  \<open>loader\<close>, \<open>instanceLoader\<close> and \<open>constructor\<close> (\<open>store_invariant\<close>).
\<close>

theorem constructor_drains_loader_options:
  assumes built: "constructor opts g = Inr (p, g')"
    and arr: "loaderOptions g < next_arr g"
    and old: "\<forall>opt \<in> set (arrays g (loaderOptions g)). opt < next_opt g"
  shows "(\<forall>opt \<in> set (arrays g (loaderOptions g)). compiler_of g' opt = Some (this_id p))
       \<and> this_loaderOptions p = loaderOptions g
       \<and> arrays g' (this_loaderOptions p) = arrays g (loaderOptions g)
       \<and> loaderOptions g' \<noteq> this_loaderOptions p
       \<and> arrays g' (loaderOptions g') = []
       \<and> (constructor opts2 (fold (\<lambda>path g. snd (loader path g)) paths g') = Inr (p2, g2) \<longrightarrow>
              this_id p2 \<noteq> this_id p
            \<and> this_loaderOptions p2 \<noteq> this_loaderOptions p
            \<and> length (arrays g2 (this_loaderOptions p2)) = length paths
            \<and> set (arrays g2 (this_loaderOptions p2)) \<inter> set (arrays g (loaderOptions g)) = {}
            \<and> (\<forall>opt \<in> set (arrays g2 (this_loaderOptions p2)). compiler_of g2 opt = Some (this_id p2))
            \<and> (\<forall>opt \<in> set (arrays g (loaderOptions g)). compiler_of g2 opt = Some (this_id p))
            \<and> arrays g2 (this_loaderOptions p) = arrays g (loaderOptions g))"
proof -
  let ?L = "arrays g (loaderOptions g)"
  let ?G = "fold (\<lambda>path g. snd (loader path g)) paths g'"
  note p = constructor_Inr(1) [OF built] and g' = constructor_Inr(2) [OF built]
  have id: "this_id p = next_inst g" and own: "this_loaderOptions p = loaderOptions g"
    by (simp_all add: p)
  have lo': "loaderOptions g' = next_arr g" and na': "next_arr g' = Suc (next_arr g)"
    and no': "next_opt g' = next_opt g" and ni': "next_inst g' = Suc (next_inst g)"
    by (simp_all add: g')
  have arrays': "arrays g' a = (if a = next_arr g then [] else arrays g a)" for a
    by (simp add: g')
  have comp': "compiler_of g' opt = set_compiler ?L (next_inst g) (compiler_of g) opt" for opt
    by (simp add: g')
  have drained: "\<forall>opt \<in> set ?L. compiler_of g' opt = Some (this_id p)"
    by (simp add: comp' id set_compiler_in)
  have kept: "arrays g' (this_loaderOptions p) = ?L"
    using arr by (simp add: arrays' own)
  have apart: "loaderOptions g' \<noteq> this_loaderOptions p"
    using arr by (simp add: lo' own)
  have empty: "arrays g' (loaderOptions g') = []"
    by (simp add: arrays' lo')
  have later: "this_id p2 \<noteq> this_id p
            \<and> this_loaderOptions p2 \<noteq> this_loaderOptions p
            \<and> length (arrays g2 (this_loaderOptions p2)) = length paths
            \<and> set (arrays g2 (this_loaderOptions p2)) \<inter> set ?L = {}
            \<and> (\<forall>opt \<in> set (arrays g2 (this_loaderOptions p2)). compiler_of g2 opt = Some (this_id p2))
            \<and> (\<forall>opt \<in> set ?L. compiler_of g2 opt = Some (this_id p))
            \<and> arrays g2 (this_loaderOptions p) = ?L"
    if second: "constructor opts2 ?G = Inr (p2, g2)"
  proof -
    note p2 = constructor_Inr(1) [OF second] and g2 = constructor_Inr(2) [OF second]
    let ?N = "[next_opt g ..< next_opt g + length paths]"
    have loG: "loaderOptions ?G = next_arr g" and naG: "next_arr ?G = Suc (next_arr g)"
      and niG: "next_inst ?G = Suc (next_inst g)"
      by (simp_all add: loaders_fields lo' na' ni')
    have arraysG: "arrays ?G a = (if a = next_arr g then ?N else arrays g a)" for a
      by (simp add: loaders_arrays lo' no' arrays')
    have compG: "compiler_of ?G opt = compiler_of g' opt" if "opt < next_opt g" for opt
      using that by (simp add: loaders_compiler_of no')
    have id2: "this_id p2 = Suc (next_inst g)" and own2: "this_loaderOptions p2 = next_arr g"
      by (simp_all add: p2 niG loG)
    have arrays2: "arrays g2 a = (if a = Suc (next_arr g) then [] else arrays ?G a)" for a
      by (simp add: g2 naG)
    have comp2: "compiler_of g2 opt =
        set_compiler ?N (Suc (next_inst g)) (compiler_of ?G) opt" for opt
      by (simp add: g2 loG niG arraysG)
    have new: "arrays g2 (this_loaderOptions p2) = ?N"
      by (simp add: arrays2 own2 arraysG)
    have disjoint: "set ?N \<inter> set ?L = {}"
      using old by auto
    have "\<forall>opt \<in> set ?L. compiler_of g2 opt = Some (this_id p)"
    proof
      fix opt assume opt: "opt \<in> set ?L"
      with old have small: "opt < next_opt g" by simp
      then have "opt \<notin> set ?N" by simp
      then have "compiler_of g2 opt = compiler_of ?G opt"
        unfolding comp2 by (rule set_compiler_notin)
      also have "\<dots> = compiler_of g' opt" by (rule compG [OF small])
      also have "\<dots> = Some (this_id p)" using drained opt by simp
      finally show "compiler_of g2 opt = Some (this_id p)" .
    qed
    moreover have "\<forall>opt \<in> set (arrays g2 (this_loaderOptions p2)). compiler_of g2 opt = Some (this_id p2)"
      unfolding new comp2 id2 by (intro ballI set_compiler_in)
    moreover have "arrays g2 (this_loaderOptions p) = ?L"
      using arr by (simp add: arrays2 arraysG own)
    moreover have "this_loaderOptions p2 \<noteq> this_loaderOptions p"
      using arr by (simp add: own own2)
    ultimately show ?thesis
      using disjoint by (simp add: id id2 new)
  qed
  from drained own kept apart empty later show ?thesis
    by blast
qed

theorem constructor_drains_loader_options_witness:
  "arrays example_gstate (loaderOptions example_gstate) = [0, 1]
   \<and> compiler_of example_gstate 0 = None
   \<and> (\<exists>g'. constructor (example_options (Some ''module-unification'') None) example_gstate =
              Inr (example_plugin (Some ''module-unification'') None, g')
         \<and> compiler_of g' 0 = Some 0 \<and> compiler_of g' 1 = Some 0
         \<and> arrays g' (this_loaderOptions (example_plugin (Some ''module-unification'') None)) = [0, 1]
         \<and> arrays g' (loaderOptions g') = []
         \<and> (\<exists>p2 g2. constructor (example_options None (Some (UserDelegate 7)))
                        (fold (\<lambda>path g. snd (loader path g)) [''./loaders/ast''] g') = Inr (p2, g2)
               \<and> this_id p2 \<noteq> 0
               \<and> length (arrays g2 (this_loaderOptions p2)) = 1
               \<and> set (arrays g2 (this_loaderOptions p2)) \<inter> {0, 1} = {}
               \<and> compiler_of g2 0 = Some 0 \<and> compiler_of g2 1 = Some 0))"
proof -
  let ?p = "example_plugin (Some ''module-unification'') None"
  have list: "arrays example_gstate (loaderOptions example_gstate) = [0, 1]"
    and unset: "compiler_of example_gstate 0 = None"
    by (simp_all add: example_gstate_fields)
  have "\<exists>g'. constructor (example_options (Some ''module-unification'') None) example_gstate =
      Inr (?p, g')"
    by (simp add: constructor_def Let_def example_gstate_fields example_plugin_def
        example_options_def truthy_def)
  then obtain g' where
    built: "constructor (example_options (Some ''module-unification'') None) example_gstate =
      Inr (?p, g')" ..
  have arr: "loaderOptions example_gstate < next_arr example_gstate"
    and old: "\<forall>opt \<in> set (arrays example_gstate (loaderOptions example_gstate)).
      opt < next_opt example_gstate"
    by (simp_all add: example_gstate_fields)
  have "\<exists>p2 g2. constructor (example_options None (Some (UserDelegate 7)))
      (fold (\<lambda>path g. snd (loader path g)) [''./loaders/ast''] g') = Inr (p2, g2)"
    by (simp add: constructor_def Let_def example_options_def truthy_def)
  then obtain p2 g2 where
    second: "constructor (example_options None (Some (UserDelegate 7)))
      (fold (\<lambda>path g. snd (loader path g)) [''./loaders/ast''] g') = Inr (p2, g2)"
    by blast
  note t = constructor_drains_loader_options [OF built arr old,
      where ?opts2.0 = "example_options None (Some (UserDelegate 7))"
      and paths = "[''./loaders/ast'']" and ?p2.0 = p2 and ?g2.0 = g2]
  have id: "this_id ?p = 0" by (simp add: example_plugin_def)
  let ?L = "arrays example_gstate (loaderOptions example_gstate)"
  from t have "\<forall>opt \<in> set ?L. compiler_of g' opt = Some (this_id ?p)"
    by blast
  then have a: "compiler_of g' 0 = Some 0" and b: "compiler_of g' 1 = Some 0"
    by (simp_all add: list id)
  from t have "arrays g' (this_loaderOptions ?p) = ?L" by blast
  then have c: "arrays g' (this_loaderOptions ?p) = [0, 1]"
    by (simp only: list)
  from t have d: "arrays g' (loaderOptions g') = []" by blast
  from t second have e0: "this_id p2 \<noteq> this_id ?p"
    and f0: "length (arrays g2 (this_loaderOptions p2)) = length [''./loaders/ast'']"
    and g0: "set (arrays g2 (this_loaderOptions p2)) \<inter> set ?L = {}"
    and h0: "\<forall>opt \<in> set ?L. compiler_of g2 opt = Some (this_id ?p)"
    by blast+
  from e0 have e: "this_id p2 \<noteq> 0" by (simp add: id)
  from f0 have f: "length (arrays g2 (this_loaderOptions p2)) = 1" by simp
  from g0 have g: "set (arrays g2 (this_loaderOptions p2)) \<inter> {0, 1} = {}"
    by (simp add: list)
  from h0 have h: "compiler_of g2 0 = Some 0" and i: "compiler_of g2 1 = Some 0"
    by (simp_all add: list id)
  from list unset built a b c d second e f g h i show ?thesis
    by blast
qed

end
